theory Spec2Isabelle
  imports Complex_Main
begin

section \<open>JavaScript values and the built-in operations the adapter uses\<close>

text \<open>
  The adapter (\<^verbatim>\<open>src/app/storage/chroma-storage.ts\<close>) inspects its metadata values at
  run time (\<^verbatim>\<open>Array.isArray\<close>, \<^verbatim>\<open>typeof\<close>, truthiness), so the values are modelled
  dynamically typed. A number carries the real that a finite double stands for;
  \<^verbatim>\<open>NaN\<close> arises only as the result of a conversion (\<open>js_Number\<close>), where it is
  the constructor \<open>NaN\<close> of \<open>jsnum\<close>. The one place where the adapter calculates
  with such numbers is the subtraction of line 289, which rounds (\<open>to_double\<close> below).
  Strings are lists of 8-bit characters, read as code units below 256.
  An object that is a metadata record is a finite map from property names to values;
  reading a property that is not there gives \<^verbatim>\<open>undefined\<close>. The values of
  its properties are primitives and arrays: other objects are not among them.
\<close>

datatype jsval =
    Undefined
  | Null
  | Bool bool
  | Num real
  | Str string
  | Arr "jsval list"

datatype jsnum = NaN | Fin real

type_synonym jsobj = "string \<rightharpoonup> jsval"

definition get_prop :: "jsobj \<Rightarrow> string \<Rightarrow> jsval" where
  "get_prop obj k = (case obj k of None \<Rightarrow> Undefined | Some v \<Rightarrow> v)"

fun truthy :: "jsval \<Rightarrow> bool" where
  "truthy Undefined = False"
| "truthy Null = False"
| "truthy (Bool b) = b"
| "truthy (Num r) = (r \<noteq> 0)"
| "truthy (Str s) = (s \<noteq> [])"
| "truthy (Arr xs) = True"

text \<open>\<^verbatim>\<open>a || b\<close> and \<^verbatim>\<open>a ?? b\<close>.\<close>

definition js_or :: "jsval \<Rightarrow> jsval \<Rightarrow> jsval" where
  "js_or a b = (if truthy a then a else b)"

definition js_nullish :: "jsval \<Rightarrow> jsval \<Rightarrow> jsval" where
  "js_nullish a b = (if a = Undefined \<or> a = Null then b else a)"

fun isArray :: "jsval \<Rightarrow> bool" where
  "isArray (Arr xs) = True"
| "isArray v = False"

fun is_number :: "jsval \<Rightarrow> bool" where
  "is_number (Num r) = True"
| "is_number v = False"

fun is_string :: "jsval \<Rightarrow> bool" where
  "is_string (Str s) = True"
| "is_string v = False"

text \<open>\<^verbatim>\<open>xs.join(",")\<close> on strings: the parts with a comma between them.\<close>

fun join_comma :: "string list \<Rightarrow> string" where
  "join_comma [] = []"
| "join_comma [s] = s"
| "join_comma (s # t # ss) = s @ CHR '','' # join_comma (t # ss)"

text \<open>
  \<^verbatim>\<open>String(v)\<close>, with \<^verbatim>\<open>Array.prototype.join\<close> for arrays: an element that is
  \<^verbatim>\<open>undefined\<close> or \<^verbatim>\<open>null\<close> joins as the empty string, every other element as its
  \<^verbatim>\<open>String\<close>. The decimal form of a number is the built-in's business: it is the
  parameter \<open>nts\<close> (Number::toString).
\<close>

fun js_String :: "(real \<Rightarrow> string) \<Rightarrow> jsval \<Rightarrow> string"
  and join_elem :: "(real \<Rightarrow> string) \<Rightarrow> jsval \<Rightarrow> string" where
  "js_String nts Undefined = ''undefined''"
| "js_String nts Null = ''null''"
| "js_String nts (Bool b) = (if b then ''true'' else ''false'')"
| "js_String nts (Num r) = nts r"
| "js_String nts (Str s) = s"
| "js_String nts (Arr xs) = join_comma (map (join_elem nts) xs)"
| "join_elem nts Undefined = []"
| "join_elem nts Null = []"
| "join_elem nts (Bool b) = js_String nts (Bool b)"
| "join_elem nts (Num r) = js_String nts (Num r)"
| "join_elem nts (Str s) = js_String nts (Str s)"
| "join_elem nts (Arr xs) = js_String nts (Arr xs)"

text \<open>\<^verbatim>\<open>arr.join(",")\<close> of a value that \<^verbatim>\<open>Array.isArray\<close> accepted.\<close>

fun js_join :: "(real \<Rightarrow> string) \<Rightarrow> jsval \<Rightarrow> string" where
  "js_join nts (Arr xs) = join_comma (map (join_elem nts) xs)"
| "js_join nts v = []"

text \<open>
  \<^verbatim>\<open>Number(v)\<close>. Reading a string as a number is the built-in's business: it is the
  parameter \<open>stn\<close> (StringToNumber).
\<close>

fun js_Number :: "(real \<Rightarrow> string) \<Rightarrow> (string \<Rightarrow> jsnum) \<Rightarrow> jsval \<Rightarrow> jsnum" where
  "js_Number nts stn Undefined = NaN"
| "js_Number nts stn Null = Fin 0"
| "js_Number nts stn (Bool b) = (if b then Fin 1 else Fin 0)"
| "js_Number nts stn (Num r) = Fin r"
| "js_Number nts stn (Str s) = stn s"
| "js_Number nts stn (Arr xs) = stn (js_String nts (Arr xs))"

text \<open>\<^verbatim>\<open>n || d\<close> on numbers: \<^verbatim>\<open>NaN\<close> and zero are falsy.\<close>

fun num_or :: "jsnum \<Rightarrow> real \<Rightarrow> real" where
  "num_or NaN d = d"
| "num_or (Fin r) d = (if r = 0 then d else r)"

text \<open>\<^verbatim>\<open>s.split(",")\<close>: a string with n commas has n + 1 parts.\<close>

fun split_comma :: "string \<Rightarrow> string list" where
  "split_comma [] = [[]]"
| "split_comma (c # cs) =
     (if c = CHR '','' then [] # split_comma cs
      else (case split_comma cs of
              [] \<Rightarrow> [[c]]
            | p # ps \<Rightarrow> (c # p) # ps))"

text \<open>
  \<^verbatim>\<open>s.trim()\<close>: white space and line terminators are stripped from both ends. Below 256
  these are TAB, LF, VT, FF, CR, SP and NBSP.
\<close>

definition is_space :: "char \<Rightarrow> bool" where
  "is_space c = (c \<in> set [CHR 0x09, CHR 0x0A, CHR 0x0B, CHR 0x0C, CHR 0x0D, CHR 0x20, CHR 0xA0])"

definition trim :: "string \<Rightarrow> string" where
  "trim s = rev (dropWhile is_space (rev (dropWhile is_space s)))"

subsection \<open>Double arithmetic\<close>

text \<open>
  An arithmetic operation on doubles gives the exact result rounded to the nearest
  double, and of two nearest doubles the one with the even significand. \<open>round_even\<close>
  rounds to the nearest integer, a tie to the even one; \<open>exponent_of x\<close> is the exponent of
  the last place of the doubles around \<open>x\<close> (53 significant bits, and \<open>- 1074\<close> at the
  least); \<open>to_double x\<close> is the double nearest to \<open>x\<close>, for \<open>x\<close> within the range of the
  finite doubles.
\<close>

definition round_even :: "real \<Rightarrow> int" where
  "round_even q =
     (let f = \<lfloor>q\<rfloor>; r = q - of_int f
      in if r < 1 / 2 then f else if 1 / 2 < r then f + 1 else if even f then f else f + 1)"

definition exponent_of :: "real \<Rightarrow> int" where
  "exponent_of x = max (\<lfloor>log 2 \<bar>x\<bar>\<rfloor> - 52) (- 1074)"

definition to_double :: "real \<Rightarrow> real" where
  "to_double x =
     (if x = 0 then 0
      else of_int (round_even (x / 2 powr of_int (exponent_of x)))
           * 2 powr of_int (exponent_of x))"

text \<open>The reals that are finite doubles.\<close>

definition is_double :: "real \<Rightarrow> bool" where
  "is_double d = (to_double d = d \<and> \<bar>d\<bar> < 2 ^ 1024)"

section \<open>Metadata shaping in addDocuments (lines 168-211)\<close>

text \<open>
  \<^verbatim>\<open>if (doc.metadata.f) metadata.f = doc.metadata.f;\<close> (lines 182, 183, 185, 189, 205).
\<close>

definition set_if_truthy :: "string \<Rightarrow> jsobj \<Rightarrow> jsobj \<Rightarrow> jsobj" where
  "set_if_truthy f m metadata =
     (if truthy (get_prop m f) then metadata(f \<mapsto> get_prop m f) else metadata)"

text \<open>
  \<^verbatim>\<open>if (typeof doc.metadata.f === "number") metadata.f = doc.metadata.f;\<close>
  (lines 184, 186, 206-208).
\<close>

definition set_if_number :: "string \<Rightarrow> jsobj \<Rightarrow> jsobj \<Rightarrow> jsobj" where
  "set_if_number f m metadata =
     (if is_number (get_prop m f) then metadata(f \<mapsto> get_prop m f) else metadata)"

text \<open>
  \<^verbatim>\<open>if (doc.metadata.f) { metadata.f = Array.isArray(doc.metadata.f)
     ? doc.metadata.f.join(",") : String(doc.metadata.f); }\<close> (lines 190-204).
\<close>

definition set_csv_if_truthy :: "(real \<Rightarrow> string) \<Rightarrow> string \<Rightarrow> jsobj \<Rightarrow> jsobj \<Rightarrow> jsobj" where
  "set_csv_if_truthy nts f m metadata =
     (if truthy (get_prop m f)
      then metadata(f \<mapsto>
             Str (if isArray (get_prop m f) then js_join nts (get_prop m f)
                  else js_String nts (get_prop m f)))
      else metadata)"

text \<open>The object literal of lines 170-179: the five fields that are always written.\<close>

definition required_fields :: "(real \<Rightarrow> string) \<Rightarrow> (string \<Rightarrow> jsnum) \<Rightarrow> jsobj \<Rightarrow> jsobj" where
  "required_fields nts stn m =
     [''source_file'' \<mapsto> js_or (get_prop m ''source_file'') (Str []),
      ''document_type'' \<mapsto> js_or (get_prop m ''document_type'') (Str ''unknown''),
      ''category'' \<mapsto> js_or (get_prop m ''category'') (Str []),
      ''keywords'' \<mapsto>
         Str (if isArray (get_prop m ''keywords'') then js_join nts (get_prop m ''keywords'')
              else js_String nts (js_or (get_prop m ''keywords'') (Str []))),
      ''chunk_index'' \<mapsto> Num (num_or (js_Number nts stn (get_prop m ''chunk_index'')) 0)]"

text \<open>The callback of \<^verbatim>\<open>batch.map\<close> that builds one chunk's stored metadata.\<close>

definition encode_metadata :: "(real \<Rightarrow> string) \<Rightarrow> (string \<Rightarrow> jsnum) \<Rightarrow> jsobj \<Rightarrow> jsobj" where
  "encode_metadata nts stn m =
     (let metadata = required_fields nts stn m;
          metadata = set_if_truthy ''document_id'' m metadata;
          metadata = set_if_truthy ''mime_type'' m metadata;
          metadata = set_if_number ''size_bytes'' m metadata;
          metadata = set_if_truthy ''created_at'' m metadata;
          metadata = set_if_number ''page_number'' m metadata;
          metadata = set_if_truthy ''section_heading'' m metadata;
          metadata = set_csv_if_truthy nts ''topic_tags'' m metadata;
          metadata = set_csv_if_truthy nts ''code_languages'' m metadata;
          metadata = set_csv_if_truthy nts ''entities'' m metadata;
          metadata = set_if_truthy ''summary'' m metadata;
          metadata = set_if_number ''quality_score'' m metadata
      in metadata)"

section \<open>List-field reconstruction in searchDocuments (lines 255-283)\<close>

text \<open>
  \<^verbatim>\<open>if (typeof metadata.f === "string" && metadata.f) {
     metadata.f = metadata.f.split(",").map((k) => k.trim()).filter((k) => k); }\<close>
\<close>

definition split_list :: "string \<Rightarrow> jsval" where
  "split_list s = Arr (map Str (filter (\<lambda>k. k \<noteq> []) (map trim (split_comma s))))"

definition decode_field :: "string \<Rightarrow> jsobj \<Rightarrow> jsobj" where
  "decode_field f metadata =
     (if is_string (get_prop metadata f) \<and> truthy (get_prop metadata f)
      then (case get_prop metadata f of
              Str s \<Rightarrow> metadata(f \<mapsto> split_list s)
            | _ \<Rightarrow> metadata)
      else metadata)"

definition decode_metadata :: "jsobj \<Rightarrow> jsobj" where
  "decode_metadata metadata =
     (let metadata = decode_field ''keywords'' metadata;
          metadata = decode_field ''topic_tags'' metadata;
          metadata = decode_field ''code_languages'' metadata;
          metadata = decode_field ''entities'' metadata
      in metadata)"

section \<open>addDocuments (lines 142-217)\<close>

text \<open>
  Every operation first resolves the collection handle (cache, else \<^verbatim>\<open>getCollection\<close>);
  the models below start at the resolved handle. The backend's calls are parameters:
  \<open>add\<close> takes the backend's state and the request, and returns the message of the error
  it throws, if it throws, and the backend's next state. Each operation also returns the
  requests it issued, in order.
\<close>

record input_doc =
  doc_id :: string
  doc_content :: string
  doc_embedding :: "real list"
  doc_metadata :: jsobj

record add_args =
  add_ids :: "string list"
  add_embeddings :: "real list list"
  add_documents :: "string list"
  add_metadatas :: "jsobj list"

type_synonym 's add_fn = "'s \<Rightarrow> add_args \<Rightarrow> string option \<times> 's"

definition batchSize :: nat where
  "batchSize = 100"

text \<open>\<^verbatim>\<open>xs.slice(i, j)\<close> for \<open>i \<le> j\<close>: the elements at \<open>i, ..., j - 1\<close> that exist.\<close>

definition slice :: "'a list \<Rightarrow> nat \<Rightarrow> nat \<Rightarrow> 'a list" where
  "slice xs i j = take (j - i) (drop i xs)"

text \<open>The argument of \<^verbatim>\<open>collection.add\<close> (lines 164-212): four parallel arrays.\<close>

definition add_request :: "(real \<Rightarrow> string) \<Rightarrow> (string \<Rightarrow> jsnum) \<Rightarrow> input_doc list \<Rightarrow> add_args" where
  "add_request nts stn batch =
     \<lparr>add_ids = map doc_id batch,
      add_embeddings = map doc_embedding batch,
      add_documents = map doc_content batch,
      add_metadatas = map (\<lambda>doc. encode_metadata nts stn (doc_metadata doc)) batch\<rparr>"

text \<open>
  The loop of lines 161-213, from index \<open>i\<close>, backend state \<open>s\<close> and the requests issued
  so far. A throwing \<^verbatim>\<open>add\<close> leaves the loop.
\<close>

function add_batches ::
  "(real \<Rightarrow> string) \<Rightarrow> (string \<Rightarrow> jsnum) \<Rightarrow> 's add_fn \<Rightarrow> input_doc list \<Rightarrow> nat \<Rightarrow> 's
     \<Rightarrow> add_args list \<Rightarrow> (string + unit) \<times> 's \<times> add_args list" where
  "add_batches nts stn add documents i s calls =
     (if i < length documents
      then (let batch = slice documents i (i + batchSize);
                request = add_request nts stn batch
            in case add s request of
                 (Some message, s') \<Rightarrow> (Inl message, s', calls @ [request])
               | (None, s') \<Rightarrow>
                   add_batches nts stn add documents (i + batchSize) s' (calls @ [request]))
      else (Inr (), s, calls))"
  by pat_completeness auto
termination
  by (relation "measure (\<lambda>(nts, stn, add, documents, i, s, calls). length documents - i)")
     (auto simp: batchSize_def)

declare add_batches.simps [simp del]

text \<open>The \<^verbatim>\<open>catch\<close> of lines 214-216 rethrows with a prefixed message.\<close>

definition addDocuments ::
  "(real \<Rightarrow> string) \<Rightarrow> (string \<Rightarrow> jsnum) \<Rightarrow> 's add_fn \<Rightarrow> 's \<Rightarrow> input_doc list
     \<Rightarrow> (string + unit) \<times> 's \<times> add_args list" where
  "addDocuments nts stn add s documents =
     (case add_batches nts stn add documents 0 s [] of
        (Inl message, s', calls) \<Rightarrow> (Inl (''Failed to add documents: '' @ message), s', calls)
      | (Inr u, s', calls) \<Rightarrow> (Inr u, s', calls))"

section \<open>listDocuments (lines 97-140)\<close>

record ListedDocument =
  ld_id :: string
  ld_source_file :: string
  ld_mime_type :: string
  ld_size_bytes :: jsnum
  ld_created_at :: string

record get_args =
  get_limit :: nat
  get_offset :: nat
  get_include :: "string list"

text \<open>
  An entry of \<^verbatim>\<open>metadatas\<close> is the record of a chunk, or \<^verbatim>\<open>null\<close> for a chunk that
  was stored without metadata.
\<close>

record get_response =
  metadatas :: "jsobj option list option"

type_synonym get_fn = "get_args \<Rightarrow> string + get_response option"

definition pageSize :: nat where
  "pageSize = 500"

text \<open>
  A JavaScript \<^verbatim>\<open>Map\<close> keeps its keys in insertion order: an association list in
  which \<^verbatim>\<open>set\<close> replaces the value of a key that is there and appends a new key.
\<close>

definition map_has :: "(string \<times> 'v) list \<Rightarrow> string \<Rightarrow> bool" where
  "map_has entries k = (k \<in> set (map fst entries))"

fun map_set :: "(string \<times> 'v) list \<Rightarrow> string \<Rightarrow> 'v \<Rightarrow> (string \<times> 'v) list" where
  "map_set [] k v = [(k, v)]"
| "map_set ((k', v') # entries) k v =
     (if k' = k then (k, v) # entries else (k', v') # map_set entries k v)"

definition map_values :: "(string \<times> 'v) list \<Rightarrow> 'v list" where
  "map_values entries = map snd entries"

text \<open>
  \<^verbatim>\<open>(batch?.metadatas as ReadonlyArray<Record<string, unknown>>) || []\<close>: the cast
  changes no value, so a \<^verbatim>\<open>null\<close> entry stays in the page.
\<close>

definition page_metadatas :: "get_response option \<Rightarrow> jsobj option list" where
  "page_metadatas batch =
     (case batch of
        None \<Rightarrow> []
      | Some b \<Rightarrow> (case metadatas b of None \<Rightarrow> [] | Some mds \<Rightarrow> mds))"

text \<open>\<^verbatim>\<open>String(md.document_id ?? "")\<close>\<close>

definition docId_of :: "(real \<Rightarrow> string) \<Rightarrow> jsobj \<Rightarrow> string" where
  "docId_of nts md = js_String nts (js_nullish (get_prop md ''document_id'') (Str []))"

text \<open>
  The object literal of lines 125-131. \<open>now\<close> is what \<^verbatim>\<open>new Date().toISOString()\<close>
  gives when this item is built.
\<close>

definition list_item ::
  "(real \<Rightarrow> string) \<Rightarrow> (string \<Rightarrow> jsnum) \<Rightarrow> string \<Rightarrow> string \<Rightarrow> jsobj \<Rightarrow> ListedDocument" where
  "list_item nts stn now docId md =
     \<lparr>ld_id = docId,
      ld_source_file = js_String nts (js_nullish (get_prop md ''source_file'') (Str ''unknown'')),
      ld_mime_type = js_String nts (js_nullish (get_prop md ''mime_type'') (Str ''text/plain'')),
      ld_size_bytes = js_Number nts stn (js_nullish (get_prop md ''size_bytes'') (Num 0)),
      ld_created_at = js_String nts (js_nullish (get_prop md ''created_at'') (Str now))\<rparr>"

text \<open>
  The message of the \<^verbatim>\<open>TypeError\<close> that reading the property \<open>p\<close> of \<^verbatim>\<open>null\<close>
  throws, in the wording of V8.
\<close>

definition null_read_message :: "string \<Rightarrow> string" where
  "null_read_message p =
     ''Cannot read properties of null (reading '' @ [CHR 0x27] @ p @ [CHR 0x27] @ '')''"

text \<open>
  The body of the inner loop (lines 122-132). On a \<^verbatim>\<open>null\<close> entry the read
  \<^verbatim>\<open>md.document_id\<close> of line 122 throws. \<open>clock k\<close> is the time read while the
  \<open>k\<close>-th listed document is built (the map holds \<open>k\<close> documents then).
\<close>

definition collect_metadata ::
  "(real \<Rightarrow> string) \<Rightarrow> (string \<Rightarrow> jsnum) \<Rightarrow> (nat \<Rightarrow> string) \<Rightarrow> jsobj option
     \<Rightarrow> (string \<times> ListedDocument) list \<Rightarrow> string + (string \<times> ListedDocument) list" where
  "collect_metadata nts stn clock entry docsById =
     (case entry of
        None \<Rightarrow> Inl (null_read_message ''document_id'')
      | Some md \<Rightarrow>
          (let docId = docId_of nts md
           in if docId = [] \<or> map_has docsById docId then Inr docsById
              else Inr (map_set docsById docId
                          (list_item nts stn (clock (length docsById)) docId md))))"

text \<open>The inner loop (line 121) over the entries of a page: a throw leaves it.\<close>

fun collect_page ::
  "(real \<Rightarrow> string) \<Rightarrow> (string \<Rightarrow> jsnum) \<Rightarrow> (nat \<Rightarrow> string) \<Rightarrow> jsobj option list
     \<Rightarrow> (string \<times> ListedDocument) list \<Rightarrow> string + (string \<times> ListedDocument) list" where
  "collect_page nts stn clock [] docsById = Inr docsById"
| "collect_page nts stn clock (entry # entries) docsById =
     (case collect_metadata nts stn clock entry docsById of
        Inl message \<Rightarrow> Inl message
      | Inr docsById' \<Rightarrow> collect_page nts stn clock entries docsById')"

definition get_request :: "nat \<Rightarrow> get_args" where
  "get_request offset =
     \<lparr>get_limit = pageSize, get_offset = offset, get_include = [''metadatas'']\<rparr>"

text \<open>The loop of lines 110-134 from \<open>offset\<close>, and the \<^verbatim>\<open>return\<close> of line 136.\<close>

function list_pages ::
  "(real \<Rightarrow> string) \<Rightarrow> (string \<Rightarrow> jsnum) \<Rightarrow> (nat \<Rightarrow> string) \<Rightarrow> get_fn \<Rightarrow> nat \<Rightarrow> nat
     \<Rightarrow> (string \<times> ListedDocument) list \<Rightarrow> get_args list
     \<Rightarrow> (string + ListedDocument list) \<times> get_args list" where
  "list_pages nts stn clock get total' offset docsById calls =
     (if offset < total'
      then (case get (get_request offset) of
              Inl message \<Rightarrow> (Inl message, calls @ [get_request offset])
            | Inr batch \<Rightarrow>
                (case collect_page nts stn clock (page_metadatas batch) docsById of
                   Inl message \<Rightarrow> (Inl message, calls @ [get_request offset])
                 | Inr docsById' \<Rightarrow>
                     list_pages nts stn clock get total' (offset + pageSize) docsById'
                       (calls @ [get_request offset])))
      else (Inr (map_values docsById), calls))"
  by pat_completeness auto
termination
  by (relation "measure (\<lambda>(nts, stn, clock, get, total', offset, docsById, calls). total' - offset)")
     (auto simp: pageSize_def)

declare list_pages.simps [simp del]

text \<open>\<open>count\<close> is the outcome of \<^verbatim>\<open>collection.count()\<close>: the total, or the error's message.\<close>

definition listDocuments ::
  "(real \<Rightarrow> string) \<Rightarrow> (string \<Rightarrow> jsnum) \<Rightarrow> (nat \<Rightarrow> string) \<Rightarrow> string + nat \<Rightarrow> get_fn
     \<Rightarrow> (string + ListedDocument list) \<times> get_args list" where
  "listDocuments nts stn clock count get =
     (case count of
        Inl message \<Rightarrow> (Inl (''Failed to list documents: '' @ message), [])
      | Inr total' \<Rightarrow>
          if total' = 0 then (Inr [], [])
          else (case list_pages nts stn clock get total' 0 [] [] of
                  (Inl message, calls) \<Rightarrow> (Inl (''Failed to list documents: '' @ message), calls)
                | (Inr docs, calls) \<Rightarrow> (Inr docs, calls)))"

section \<open>searchDocuments (lines 219-296)\<close>

text \<open>\<^verbatim>\<open>{ $in: value }\<close> and \<^verbatim>\<open>{ $eq: value }\<close>.\<close>

datatype predicate = In_predicate jsval | Eq_predicate jsval

text \<open>
  \<^verbatim>\<open>whereClause[key] = ...\<close> on an object made by \<^verbatim>\<open>{}\<close>, whose own keys are read
  back with \<^verbatim>\<open>Object.keys\<close>: the association list of \<open>map_set\<close> again, but for the key
  \<^verbatim>\<open>__proto__\<close>. That key is an accessor inherited from \<^verbatim>\<open>Object.prototype\<close>:
  assigning an object to it replaces the prototype and makes no own property.
\<close>

definition obj_assign :: "(string \<times> 'v) list \<Rightarrow> string \<Rightarrow> 'v \<Rightarrow> (string \<times> 'v) list" where
  "obj_assign obj key v = (if key = ''__proto__'' then obj else map_set obj key v)"

text \<open>
  The callback of \<^verbatim>\<open>forEach\<close> (lines 237-243). The filters are given by their
  \<^verbatim>\<open>Object.entries\<close>, in that order; \<open>None\<close> is a filter argument that is not there.
\<close>

definition where_entry ::
  "string \<times> jsval \<Rightarrow> (string \<times> predicate) list \<Rightarrow> (string \<times> predicate) list" where
  "where_entry entry whereClause =
     (case entry of (key, value) \<Rightarrow>
        if isArray value then obj_assign whereClause key (In_predicate value)
        else obj_assign whereClause key (Eq_predicate value))"

definition build_where :: "(string \<times> jsval) list option \<Rightarrow> (string \<times> predicate) list" where
  "build_where filters =
     (case filters of None \<Rightarrow> [] | Some entries \<Rightarrow> fold where_entry entries [])"

record query_args =
  queryEmbeddings :: "real list list"
  nResults :: real
  where_arg :: "(string \<times> predicate) list option"
  query_include :: "string list"

record query_result =
  res_ids :: "string list list"
  res_documents :: "string option list list option"
  res_metadatas :: "jsobj option list list option"
  res_distances :: "real option list list option"

type_synonym query_fn = "query_args \<Rightarrow> string + query_result"

record SearchResult =
  sr_id :: string
  sr_content :: string
  sr_metadata :: jsobj
  sr_similarity :: real

text \<open>\<^verbatim>\<open>rows?.[0]?.[index]\<close>: nothing when the rows, the first row or the entry is missing.\<close>

definition first_row_at :: "'a option list list option \<Rightarrow> nat \<Rightarrow> 'a option" where
  "first_row_at rows index =
     (case rows of
        None \<Rightarrow> None
      | Some [] \<Rightarrow> None
      | Some (row # rest) \<Rightarrow> (if index < length row then row ! index else None))"

text \<open>\<^verbatim>\<open>s || ""\<close> and \<^verbatim>\<open>d || 0\<close> on an entry that may be missing.\<close>

fun str_or :: "string option \<Rightarrow> string \<Rightarrow> string" where
  "str_or None d = d"
| "str_or (Some s) d = (if s = [] then d else s)"

fun distance_or :: "real option \<Rightarrow> real \<Rightarrow> real" where
  "distance_or None d = d"
| "distance_or (Some r) d = (if r = 0 then d else r)"

text \<open>
  The callback of \<^verbatim>\<open>results.ids[0]?.map\<close> (lines 254-291). The distances are finite
  doubles, and the subtraction of line 289 is the subtraction of doubles.
\<close>

definition search_hit :: "query_result \<Rightarrow> string \<Rightarrow> nat \<Rightarrow> SearchResult" where
  "search_hit results ident index =
     (let metadata = (case first_row_at (res_metadatas results) index of
                        None \<Rightarrow> Map.empty
                      | Some md \<Rightarrow> md);
          metadata = decode_metadata metadata
      in \<lparr>sr_id = ident,
          sr_content = str_or (first_row_at (res_documents results) index) [],
          sr_metadata = metadata,
          sr_similarity =
            to_double (1 - distance_or (first_row_at (res_distances results) index) 0)\<rparr>)"

definition search_hits :: "query_result \<Rightarrow> SearchResult list" where
  "search_hits results =
     (case res_ids results of
        [] \<Rightarrow> []
      | row # rest \<Rightarrow> map (\<lambda>(index, ident). search_hit results ident index) (enumerate 0 row))"

definition query_request ::
  "real list \<Rightarrow> real option \<Rightarrow> (string \<times> jsval) list option \<Rightarrow> query_args" where
  "query_request queryEmbedding limit filters =
     (let whereClause = build_where filters
      in \<lparr>queryEmbeddings = [queryEmbedding],
          nResults = (case limit of None \<Rightarrow> 10 | Some l \<Rightarrow> l),
          where_arg = (if length (map fst whereClause) > 0 then Some whereClause else None),
          query_include = [''documents'', ''metadatas'', ''distances'']\<rparr>)"

definition searchDocuments ::
  "query_fn \<Rightarrow> real list \<Rightarrow> real option \<Rightarrow> (string \<times> jsval) list option
     \<Rightarrow> (string + SearchResult list) \<times> query_args" where
  "searchDocuments query queryEmbedding limit filters =
     (let request = query_request queryEmbedding limit filters
      in case query request of
           Inl message \<Rightarrow> (Inl (''Failed to search documents: '' @ message), request)
         | Inr results \<Rightarrow> (Inr (search_hits results), request))"

section \<open>Notions used to state the properties\<close>

subsection \<open>Metadata fields\<close>

definition list_fields :: "string list" where
  "list_fields = [''keywords'', ''topic_tags'', ''code_languages'', ''entities'']"

definition optional_list_fields :: "string list" where
  "optional_list_fields = [''topic_tags'', ''code_languages'', ''entities'']"

definition optional_string_fields :: "string list" where
  "optional_string_fields =
     [''document_id'', ''mime_type'', ''created_at'', ''section_heading'', ''summary'']"

definition optional_number_fields :: "string list" where
  "optional_number_fields = [''size_bytes'', ''page_number'', ''quality_score'']"

definition specified_fields :: "string list" where
  "specified_fields =
     [''source_file'', ''document_type'', ''category'', ''keywords'', ''chunk_index'']
     @ optional_string_fields @ optional_number_fields @ optional_list_fields"

definition defined_values :: "jsobj \<Rightarrow> bool" where
  "defined_values md = (\<forall>k v. md k = Some v \<longrightarrow> v \<noteq> Undefined \<and> v \<noteq> Null)"

text \<open>
  A list element as the round-trip contract describes it: a string without a comma that
  is not made of white space only.
\<close>

fun plain_elem :: "jsval \<Rightarrow> bool" where
  "plain_elem (Str s) = (CHR '','' \<notin> set s \<and> \<not> list_all is_space s)"
| "plain_elem v = False"

definition plain_lists :: "jsobj \<Rightarrow> bool" where
  "plain_lists m =
     list_all (\<lambda>f. case get_prop m f of Arr xs \<Rightarrow> list_all plain_elem xs | v \<Rightarrow> True)
       list_fields"

text \<open>
  A list element that the stored form gives back: a non-empty string without a comma
  that neither starts nor ends with white space. A list that comes back is a non-empty
  list of such elements.
\<close>

fun clean_elem :: "jsval \<Rightarrow> bool" where
  "clean_elem (Str s) =
     (s \<noteq> [] \<and> CHR '','' \<notin> set s \<and> \<not> is_space (hd s) \<and> \<not> is_space (last s))"
| "clean_elem v = False"

fun clean_list :: "jsval \<Rightarrow> bool" where
  "clean_list (Arr xs) = (xs \<noteq> [] \<and> list_all clean_elem xs)"
| "clean_list v = False"

definition nonempty_string :: "jsval \<Rightarrow> bool" where
  "nonempty_string v = (is_string v \<and> truthy v)"

definition roundtrip_pre :: "jsobj \<Rightarrow> bool" where
  "roundtrip_pre m =
     (is_string (get_prop m ''source_file'')
      \<and> nonempty_string (get_prop m ''document_type'')
      \<and> is_string (get_prop m ''category'')
      \<and> clean_list (get_prop m ''keywords'')
      \<and> is_number (get_prop m ''chunk_index'')
      \<and> list_all (\<lambda>f. get_prop m f = Undefined \<or> nonempty_string (get_prop m f))
           optional_string_fields
      \<and> list_all (\<lambda>f. get_prop m f = Undefined \<or> is_number (get_prop m f))
           optional_number_fields
      \<and> list_all (\<lambda>f. get_prop m f = Undefined \<or> clean_list (get_prop m f))
           optional_list_fields)"

subsection \<open>Batches\<close>

definition batch_count :: "nat \<Rightarrow> nat" where
  "batch_count n = (n + batchSize - 1) div batchSize"

text \<open>The requests for the consecutive slices of \<open>batchSize\<close> documents, in order.\<close>

definition batch_requests ::
  "(real \<Rightarrow> string) \<Rightarrow> (string \<Rightarrow> jsnum) \<Rightarrow> input_doc list \<Rightarrow> add_args list" where
  "batch_requests nts stn documents =
     map (\<lambda>k. add_request nts stn (slice documents (k * batchSize) (k * batchSize + batchSize)))
       [0 ..< batch_count (length documents)]"

text \<open>The backend's state after it has been sent the requests, one after the other.\<close>

definition backend_after :: "'s add_fn \<Rightarrow> add_args list \<Rightarrow> 's \<Rightarrow> 's" where
  "backend_after add requests s = fold (\<lambda>request s. snd (add s request)) requests s"

text \<open>Sending the requests one after the other until one is rejected.\<close>

fun issue_all ::
  "'s add_fn \<Rightarrow> 's \<Rightarrow> add_args list \<Rightarrow> add_args list \<Rightarrow> (string + unit) \<times> 's \<times> add_args list" where
  "issue_all add s calls [] = (Inr (), s, calls)"
| "issue_all add s calls (r # rs) =
     (case add s r of
        (Some message, s') \<Rightarrow> (Inl message, s', calls @ [r])
      | (None, s') \<Rightarrow> issue_all add s' (calls @ [r]) rs)"

subsection \<open>Pages\<close>

definition page_count :: "nat \<Rightarrow> nat" where
  "page_count total' = (total' + pageSize - 1) div pageSize"

definition page_offsets :: "nat \<Rightarrow> nat list" where
  "page_offsets total' = map (\<lambda>p. p * pageSize) [0 ..< page_count total']"

definition page_at :: "get_fn \<Rightarrow> nat \<Rightarrow> jsobj option list" where
  "page_at get offset =
     (case get (get_request offset) of Inl message \<Rightarrow> [] | Inr batch \<Rightarrow> page_metadatas batch)"

text \<open>The entries of all pages, in the order in which the pages are fetched.\<close>

definition fetched_metadatas :: "get_fn \<Rightarrow> nat \<Rightarrow> jsobj option list" where
  "fetched_metadatas get total' = concat (map (page_at get) (page_offsets total'))"

text \<open>The distinct elements of a list, each at the place where it first occurs.\<close>

definition first_occurrences :: "'a list \<Rightarrow> 'a list" where
  "first_occurrences xs = rev (remdups (rev xs))"

text \<open>The body of the inner loop on an entry that is a record.\<close>

definition collect_record ::
  "(real \<Rightarrow> string) \<Rightarrow> (string \<Rightarrow> jsnum) \<Rightarrow> (nat \<Rightarrow> string) \<Rightarrow> jsobj
     \<Rightarrow> (string \<times> ListedDocument) list \<Rightarrow> (string \<times> ListedDocument) list" where
  "collect_record nts stn clock md docsById =
     (let docId = docId_of nts md
      in if docId = [] \<or> map_has docsById docId then docsById
         else map_set docsById docId
                (list_item nts stn (clock (length docsById)) docId md))"

text \<open>
  What the map of listed documents holds once the chunks \<open>chunks\<close> have been seen: its
  keys are the distinct non-empty document ids in order of first occurrence, and the
  \<open>k\<close>-th value is built from the first chunk that has the \<open>k\<close>-th key.
\<close>

definition listed ::
  "(real \<Rightarrow> string) \<Rightarrow> (string \<Rightarrow> jsnum) \<Rightarrow> (nat \<Rightarrow> string) \<Rightarrow> jsobj list
     \<Rightarrow> (string \<times> ListedDocument) list \<Rightarrow> bool" where
  "listed nts stn clock chunks docsById =
     (map fst docsById = first_occurrences (filter (\<lambda>d. d \<noteq> []) (map (docId_of nts) chunks))
      \<and> (\<forall>k < length docsById. \<exists>md.
            find (\<lambda>md. docId_of nts md = fst (docsById ! k)) chunks = Some md
            \<and> snd (docsById ! k) = list_item nts stn (clock k) (fst (docsById ! k)) md))"

subsection \<open>Filters\<close>

definition translate_entry :: "string \<times> jsval \<Rightarrow> string \<times> predicate" where
  "translate_entry entry =
     (case entry of (key, value) \<Rightarrow>
        (key, if isArray value then In_predicate value else Eq_predicate value))"

section \<open>Sample inputs\<close>

definition sample_nts :: "real \<Rightarrow> string" where
  "sample_nts r = ''0''"

definition sample_stn :: "string \<Rightarrow> jsnum" where
  "sample_stn s = NaN"

definition sample_metadata :: jsobj where
  "sample_metadata =
     [''source_file'' \<mapsto> Str ''guide.md'',
      ''document_type'' \<mapsto> Str ''manual'',
      ''category'' \<mapsto> Str [],
      ''keywords'' \<mapsto> Arr [Str ''install'', Str ''quick start''],
      ''chunk_index'' \<mapsto> Num 0,
      ''document_id'' \<mapsto> Str ''d1'',
      ''size_bytes'' \<mapsto> Num 2048,
      ''topic_tags'' \<mapsto> Arr [Str ''setup'']]"

text \<open>Lists that the round-trip contract admits and that do not come back.\<close>

definition lossy_metadata :: jsobj where
  "lossy_metadata =
     [''source_file'' \<mapsto> Str ''guide.md'',
      ''document_type'' \<mapsto> Str ''manual'',
      ''category'' \<mapsto> Str [],
      ''keywords'' \<mapsto> Arr [Str '' a''],
      ''chunk_index'' \<mapsto> Num 0,
      ''topic_tags'' \<mapsto> Arr []]"

definition untyped_metadata :: jsobj where
  "untyped_metadata =
     [''document_id'' \<mapsto> Str [],
      ''summary'' \<mapsto> Num 7,
      ''mime_type'' \<mapsto> Str ''text/markdown'',
      ''size_bytes'' \<mapsto> Str ''12'',
      ''page_number'' \<mapsto> Num 3]"

definition sample_doc :: input_doc where
  "sample_doc =
     \<lparr>doc_id = ''c1'', doc_content = ''text'', doc_embedding = [1 / 2],
      doc_metadata = sample_metadata\<rparr>"

text \<open>A backend that counts the records it holds and accepts every request.\<close>

definition accepting_add :: "nat add_fn" where
  "accepting_add s request = (None, s + length (add_ids request))"

text \<open>A backend that rejects every request once it holds \<open>full\<close> records.\<close>

definition bounded_add :: "nat \<Rightarrow> nat add_fn" where
  "bounded_add full s request =
     (if full \<le> s then (Some ''boom'', s) else (None, s + length (add_ids request)))"

definition sample_clock :: "nat \<Rightarrow> string" where
  "sample_clock k =
     (if k = 0 then ''2024-01-01T00:00:00.000Z'' else ''2024-01-01T00:00:00.001Z'')"

definition sample_page :: "jsobj option list" where
  "sample_page =
     [ Some [''document_id'' \<mapsto> Str ''d1'', ''chunk_index'' \<mapsto> Num 1],
       Some [''source_file'' \<mapsto> Str ''orphan.md''],
       Some [''document_id'' \<mapsto> Str ''d2'', ''source_file'' \<mapsto> Str ''b.md'',
             ''size_bytes'' \<mapsto> Num 5, ''created_at'' \<mapsto> Str ''2023-05-05''],
       Some [''document_id'' \<mapsto> Str ''d1'', ''source_file'' \<mapsto> Str ''a.md''] ]"

text \<open>A set of two chunks, the first of them stored without metadata.\<close>

definition null_page :: "jsobj option list" where
  "null_page = [None, Some [''document_id'' \<mapsto> Str ''d1'']]"

definition null_get :: get_fn where
  "null_get args =
     (if get_offset args = 0 then Inr (Some \<lparr>metadatas = Some null_page\<rparr>) else Inr None)"

text \<open>The same set with an empty record in the place of \<^verbatim>\<open>null\<close>.\<close>

definition empty_record_get :: get_fn where
  "empty_record_get args =
     (if get_offset args = 0
      then Inr (Some \<lparr>metadatas = Some [Some Map.empty, Some [''document_id'' \<mapsto> Str ''d1'']]\<rparr>)
      else Inr None)"

definition sample_get :: get_fn where
  "sample_get args =
     (if get_offset args = 0 then Inr (Some \<lparr>metadatas = Some sample_page\<rparr>) else Inr None)"

definition sample_filters :: "(string \<times> jsval) list" where
  "sample_filters = [(''document_type'', Arr [Str ''a'', Str ''b'']), (''category'', Str ''x'')]"

definition sample_results :: query_result where
  "sample_results =
     \<lparr>res_ids = [ [''c1'', ''c2'', ''c3'', ''c4''] ],
      res_documents = Some [ [Some ''first chunk'', None, Some [], Some ''fourth''] ],
      res_metadatas = Some [ [Some [''keywords'' \<mapsto> Str ''a, b''], None, None, None] ],
      res_distances = Some [ [Some (to_double (1 / 5)), Some 0, None, Some 3] ]\<rparr>"

definition sample_query :: query_fn where
  "sample_query request = Inr sample_results"

text \<open>A filter map whose one own key is \<^verbatim>\<open>__proto__\<close>, as \<^verbatim>\<open>JSON.parse\<close> makes it.\<close>

definition proto_filters :: "(string \<times> jsval) list" where
  "proto_filters = [(''__proto__'', Str ''x'')]"

text \<open>A hit whose distance is a rounding error below zero.\<close>

definition tiny_results :: query_result where
  "tiny_results =
     \<lparr>res_ids = [ [''c1''] ],
      res_documents = Some [ [Some ''first chunk''] ],
      res_metadatas = None,
      res_distances = Some [ [Some (- 1 / 2 ^ 60)] ]\<rparr>"

definition tiny_query :: query_fn where
  "tiny_query request = Inr tiny_results"

section \<open>The stored form of a metadata record\<close>

lemma set_if_truthy_apply:
  "set_if_truthy f m md k =
     (if k = f \<and> truthy (get_prop m f) then Some (get_prop m f) else md k)"
  by (simp add: set_if_truthy_def)

lemma set_if_number_apply:
  "set_if_number f m md k =
     (if k = f \<and> is_number (get_prop m f) then Some (get_prop m f) else md k)"
  by (simp add: set_if_number_def)

lemma set_csv_if_truthy_apply:
  "set_csv_if_truthy nts f m md k =
     (if k = f \<and> truthy (get_prop m f)
      then Some (Str (if isArray (get_prop m f) then js_join nts (get_prop m f)
                      else js_String nts (get_prop m f)))
      else md k)"
  by (simp add: set_csv_if_truthy_def)

lemma decode_field_apply:
  "decode_field f md k =
     (if k = f
      then (case md f of
              Some (Str s) \<Rightarrow> if s \<noteq> [] then Some (split_list s) else Some (Str s)
            | v \<Rightarrow> v)
      else md k)"
  by (auto simp: decode_field_def get_prop_def split: option.splits jsval.splits)

lemmas encode_apply = encode_metadata_def Let_def set_if_truthy_apply set_if_number_apply
  set_csv_if_truthy_apply required_fields_def

lemma get_prop_Some: "md f = Some v \<Longrightarrow> get_prop md f = v"
  by (simp add: get_prop_def)

lemma encode_string_field:
  "\<forall>f \<in> set optional_string_fields.
     encode_metadata nts stn m f =
       (if truthy (get_prop m f) then Some (get_prop m f) else None)"
  by (simp add: optional_string_fields_def encode_apply)

lemma encode_number_field:
  "\<forall>f \<in> set optional_number_fields.
     encode_metadata nts stn m f =
       (if is_number (get_prop m f) then Some (get_prop m f) else None)"
  by (simp add: optional_number_fields_def encode_apply)

lemma encode_optional_list_field:
  "\<forall>f \<in> set optional_list_fields.
     encode_metadata nts stn m f =
       (if truthy (get_prop m f)
        then Some (Str (if isArray (get_prop m f) then js_join nts (get_prop m f)
                        else js_String nts (get_prop m f)))
        else None)"
  by (simp add: optional_list_fields_def encode_apply)

lemma encode_keywords:
  "encode_metadata nts stn m ''keywords'' =
     Some (Str (if isArray (get_prop m ''keywords'') then js_join nts (get_prop m ''keywords'')
                else js_String nts (js_or (get_prop m ''keywords'') (Str []))))"
  by (simp add: encode_apply)

lemma encode_source_file:
  "encode_metadata nts stn m ''source_file'' = Some (js_or (get_prop m ''source_file'') (Str []))"
  by (simp add: encode_apply)

lemma encode_document_type:
  "encode_metadata nts stn m ''document_type'' =
     Some (js_or (get_prop m ''document_type'') (Str ''unknown''))"
  by (simp add: encode_apply)

lemma encode_category:
  "encode_metadata nts stn m ''category'' = Some (js_or (get_prop m ''category'') (Str []))"
  by (simp add: encode_apply)

lemma encode_chunk_index:
  "encode_metadata nts stn m ''chunk_index'' =
     Some (Num (num_or (js_Number nts stn (get_prop m ''chunk_index'')) 0))"
  by (simp add: encode_apply)

lemma decode_list_field:
  assumes "f \<in> set list_fields"
  shows "decode_metadata md f =
     (case md f of
        Some (Str s) \<Rightarrow> if s \<noteq> [] then Some (split_list s) else Some (Str s)
      | v \<Rightarrow> v)"
proof -
  from assms consider "f = ''keywords''" | "f = ''topic_tags''" | "f = ''code_languages''"
    | "f = ''entities''"
    by (auto simp: list_fields_def)
  then show ?thesis
    by cases (simp_all add: decode_metadata_def Let_def decode_field_apply)
qed

lemma decode_other_field:
  assumes "f \<notin> set list_fields"
  shows "decode_metadata md f = md f"
  using assms by (simp add: decode_metadata_def Let_def decode_field_apply list_fields_def)

lemma get_prop_decode_other:
  "f \<notin> set list_fields \<Longrightarrow> get_prop (decode_metadata md) f = get_prop md f"
  by (simp add: get_prop_def decode_other_field)

subsection \<open>No null or undefined value is stored\<close>

lemma truthy_defined: "truthy v \<Longrightarrow> v \<noteq> Undefined \<and> v \<noteq> Null"
  by (cases v) auto

lemma is_number_defined: "is_number v \<Longrightarrow> v \<noteq> Undefined \<and> v \<noteq> Null"
  by (cases v) auto

lemma js_or_defined:
  "b \<noteq> Undefined \<Longrightarrow> b \<noteq> Null \<Longrightarrow> js_or a b \<noteq> Undefined \<and> js_or a b \<noteq> Null"
  by (cases a) (auto simp: js_or_def)

lemma defined_required: "defined_values (required_fields nts stn m)"
  by (simp add: defined_values_def required_fields_def js_or_defined)

lemma defined_set_if_truthy: "defined_values md \<Longrightarrow> defined_values (set_if_truthy f m md)"
  by (simp add: defined_values_def set_if_truthy_apply truthy_defined)

lemma defined_set_if_number: "defined_values md \<Longrightarrow> defined_values (set_if_number f m md)"
  by (simp add: defined_values_def set_if_number_apply is_number_defined)

lemma defined_set_csv: "defined_values md \<Longrightarrow> defined_values (set_csv_if_truthy nts f m md)"
  by (simp add: defined_values_def set_csv_if_truthy_apply)

lemma defined_encode: "defined_values (encode_metadata nts stn m)"
  unfolding encode_metadata_def Let_def
  by (intro defined_set_if_truthy defined_set_if_number defined_set_csv defined_required)

subsection \<open>Optional scalar fields\<close>

text \<open>
  C7, as the code has it. An optional string field (\<open>document_id\<close>, \<open>mime_type\<close>,
  \<open>created_at\<close>, \<open>section_heading\<close>, \<open>summary\<close>) is stored, unchanged, if and only if
  its value is truthy: a string that is there and empty is left out, and no type is
  tested. An optional numeric field (\<open>size_bytes\<close>, \<open>page_number\<close>, \<open>quality_score\<close>) is
  stored, unchanged, if and only if its value is of type number. No stored value is
  \<^verbatim>\<open>null\<close> or \<^verbatim>\<open>undefined\<close>.
\<close>

theorem encode_optional_scalars:
  "(\<forall>f \<in> set optional_string_fields.
      encode_metadata nts stn m f =
        (if truthy (get_prop m f) then Some (get_prop m f) else None))
   \<and> (\<forall>f \<in> set optional_number_fields.
      encode_metadata nts stn m f =
        (if is_number (get_prop m f) then Some (get_prop m f) else None))
   \<and> (\<forall>f v. encode_metadata nts stn m f = Some v \<longrightarrow> v \<noteq> Undefined \<and> v \<noteq> Null)"
proof (intro conjI)
  show "\<forall>f \<in> set optional_string_fields.
      encode_metadata nts stn m f =
        (if truthy (get_prop m f) then Some (get_prop m f) else None)"
    by (rule encode_string_field)
  show "\<forall>f \<in> set optional_number_fields.
      encode_metadata nts stn m f =
        (if is_number (get_prop m f) then Some (get_prop m f) else None)"
    by (rule encode_number_field)
  show "\<forall>f v. encode_metadata nts stn m f = Some v \<longrightarrow> v \<noteq> Undefined \<and> v \<noteq> Null"
    using defined_encode [of nts stn m] by (simp add: defined_values_def)
qed

text \<open>
  The theorem at a record with a text type, a size given as a string and a page number:
  the type and the page are stored, the size is not, and the source file gets its
  default.
\<close>

theorem encode_optional_scalars_witness:
  "''mime_type'' \<in> set optional_string_fields
   \<and> encode_metadata sample_nts sample_stn untyped_metadata ''mime_type'' =
       Some (Str ''text/markdown'')
   \<and> ''size_bytes'' \<in> set optional_number_fields
   \<and> encode_metadata sample_nts sample_stn untyped_metadata ''size_bytes'' = None
   \<and> ''page_number'' \<in> set optional_number_fields
   \<and> encode_metadata sample_nts sample_stn untyped_metadata ''page_number'' = Some (Num 3)
   \<and> encode_metadata sample_nts sample_stn untyped_metadata ''source_file'' = Some (Str [])
   \<and> Str [] \<noteq> Undefined \<and> Str [] \<noteq> Null"
  using encode_optional_scalars [of sample_nts sample_stn untyped_metadata]
  by (simp add: optional_string_fields_def optional_number_fields_def untyped_metadata_def
      get_prop_def encode_source_file js_or_def)

text \<open>
  C7 as the claim has it fails: a \<open>document_id\<close> that is there and is a string, the empty
  one, is not stored, and a \<open>summary\<close> that is not a string is stored.
\<close>

theorem optional_string_counterexample:
  "is_string (get_prop untyped_metadata ''document_id'')
   \<and> encode_metadata sample_nts sample_stn untyped_metadata ''document_id'' = None
   \<and> \<not> is_string (get_prop untyped_metadata ''summary'')
   \<and> encode_metadata sample_nts sample_stn untyped_metadata ''summary'' = Some (Num 7)"
  by (simp add: untyped_metadata_def get_prop_def encode_apply)

subsection \<open>Empty lists\<close>

text \<open>
  C9. For each of \<open>keywords\<close>, \<open>topic_tags\<close>, \<open>code_languages\<close> and \<open>entities\<close>: a value
  that is the empty list is stored as the empty string; reconstruction leaves a stored
  empty string as it is; so the empty list comes back as the empty string.
\<close>

theorem empty_list_field:
  assumes "f \<in> set list_fields"
  shows "(m f = Some (Arr []) \<longrightarrow>
            encode_metadata nts stn m f = Some (Str [])
          \<and> decode_metadata (encode_metadata nts stn m) f = Some (Str []))
       \<and> (md f = Some (Str []) \<longrightarrow> decode_metadata md f = Some (Str []))"
proof (intro conjI impI)
  assume e: "m f = Some (Arr [])"
  then have g: "get_prop m f = Arr []" by (simp add: get_prop_def)
  show enc: "encode_metadata nts stn m f = Some (Str [])"
  proof (cases "f = ''keywords''")
    case True
    then show ?thesis using g by (simp add: encode_keywords)
  next
    case False
    with assms have "f \<in> set optional_list_fields"
      by (auto simp: list_fields_def optional_list_fields_def)
    then show ?thesis using g encode_optional_list_field [of nts stn m] by simp
  qed
  show "decode_metadata (encode_metadata nts stn m) f = Some (Str [])"
    by (simp add: decode_list_field [OF assms] enc)
next
  assume "md f = Some (Str [])"
  then show "decode_metadata md f = Some (Str [])"
    by (simp add: decode_list_field [OF assms])
qed

theorem empty_list_field_witness:
  "''topic_tags'' \<in> set list_fields
   \<and> lossy_metadata ''topic_tags'' = Some (Arr [])
   \<and> encode_metadata sample_nts sample_stn lossy_metadata ''topic_tags'' = Some (Str [])
   \<and> decode_metadata (encode_metadata sample_nts sample_stn lossy_metadata) ''topic_tags'' =
       Some (Str [])"
proof -
  have f: "''topic_tags'' \<in> set list_fields" by (simp add: list_fields_def)
  have m: "lossy_metadata ''topic_tags'' = Some (Arr [])" by (simp add: lossy_metadata_def)
  from empty_list_field [OF f, of lossy_metadata sample_nts sample_stn] f m
  show ?thesis by simp
qed

subsection \<open>Lists that come back\<close>

lemma split_comma_no_comma: "CHR '','' \<notin> set s \<Longrightarrow> split_comma s = [s]"
  by (induction s) auto

lemma split_comma_append:
  "CHR '','' \<notin> set s \<Longrightarrow> split_comma (s @ CHR '','' # t) = s # split_comma t"
  by (induction s) auto

lemma split_join:
  "ss \<noteq> [] \<Longrightarrow> \<forall>s \<in> set ss. CHR '','' \<notin> set s \<Longrightarrow> split_comma (join_comma ss) = ss"
  by (induction ss rule: join_comma.induct)
     (simp_all add: split_comma_no_comma split_comma_append)

lemma trim_clean:
  assumes "s \<noteq> []" "\<not> is_space (hd s)" "\<not> is_space (last s)"
  shows "trim s = s"
proof -
  from assms have a: "dropWhile is_space s = s"
    by (cases s) auto
  from assms have "rev s \<noteq> []" "\<not> is_space (hd (rev s))"
    by (simp_all add: hd_rev)
  then have b: "dropWhile is_space (rev s) = rev s"
    by (cases "rev s") auto
  show ?thesis by (simp add: trim_def a b)
qed

lemma clean_elem_Str: "clean_elem x \<Longrightarrow> \<exists>s. x = Str s"
  by (cases x) auto

lemma clean_strings:
  "list_all clean_elem xs \<Longrightarrow> \<exists>ss. xs = map Str ss \<and> (\<forall>s \<in> set ss. clean_elem (Str s))"
proof (induction xs)
  case Nil
  then show ?case by simp
next
  case (Cons x xs)
  then obtain ss where ss: "xs = map Str ss" "\<forall>s \<in> set ss. clean_elem (Str s)" by auto
  from Cons.prems obtain s where s: "x = Str s" using clean_elem_Str by auto
  with Cons.prems ss have "x # xs = map Str (s # ss) \<and> (\<forall>t \<in> set (s # ss). clean_elem (Str t))"
    by simp
  then show ?case by (intro exI [of _ "s # ss"])
qed

lemma join_elem_Str: "map (join_elem nts \<circ> Str) ss = ss"
  by (induction ss) auto

lemma join_comma_nonempty: "ss \<noteq> [] \<Longrightarrow> hd ss \<noteq> [] \<Longrightarrow> join_comma ss \<noteq> []"
  by (induction ss rule: join_comma.induct) auto

lemma split_list_join:
  assumes "clean_list v"
  shows "js_join nts v \<noteq> [] \<and> split_list (js_join nts v) = v"
proof -
  from assms obtain xs where v: "v = Arr xs" and ne: "xs \<noteq> []" and cl: "list_all clean_elem xs"
    by (cases v) auto
  from clean_strings [OF cl] obtain ss where ss: "xs = map Str ss"
    and cs: "\<forall>s \<in> set ss. clean_elem (Str s)" by blast
  from ne ss have ne': "ss \<noteq> []" by auto
  have j: "js_join nts v = join_comma ss" by (simp add: v ss join_elem_Str)
  from cs have nocomma: "\<forall>s \<in> set ss. CHR '','' \<notin> set s" by auto
  from cs have tr: "map trim ss = ss"
    by (intro map_idI) (auto simp: trim_clean)
  from cs have fl: "filter (\<lambda>k. k \<noteq> []) ss = ss"
    by (intro filter_True) auto
  from ne' cs have "hd ss \<noteq> []" by (cases ss) auto
  with ne' have "join_comma ss \<noteq> []" by (rule join_comma_nonempty)
  moreover have "split_list (join_comma ss) = v"
    by (simp add: split_list_def split_join [OF ne' nocomma] tr fl v ss)
  ultimately show ?thesis by (simp add: j)
qed

lemma is_string_or: "is_string v \<Longrightarrow> js_or v (Str []) = v"
  by (cases v) (auto simp: js_or_def)

lemma clean_list_isArray: "clean_list v \<Longrightarrow> isArray v \<and> truthy v"
  by (cases v) auto

lemma optional_string_not_list: "\<forall>f \<in> set optional_string_fields. f \<notin> set list_fields"
  by (simp add: optional_string_fields_def list_fields_def)

lemma optional_number_not_list: "\<forall>f \<in> set optional_number_fields. f \<notin> set list_fields"
  by (simp add: optional_number_fields_def list_fields_def)

lemma optional_list_is_list: "\<forall>f \<in> set optional_list_fields. f \<in> set list_fields"
  by (simp add: optional_list_fields_def list_fields_def)

lemma required_scalar_not_list:
  "\<forall>f \<in> set [''source_file'', ''document_type'', ''category'', ''chunk_index''].
     f \<notin> set list_fields"
  by (simp add: list_fields_def)

lemma roundtrip_source_file:
  assumes "is_string (get_prop m ''source_file'')"
  shows "get_prop (decode_metadata (encode_metadata nts stn m)) ''source_file'' =
           get_prop m ''source_file''"
proof -
  have "''source_file'' \<notin> set list_fields" using required_scalar_not_list by simp
  then show ?thesis
    by (simp add: get_prop_decode_other
        get_prop_Some [where md = "encode_metadata nts stn m", OF encode_source_file]
        is_string_or [OF assms])
qed

lemma roundtrip_document_type:
  assumes "nonempty_string (get_prop m ''document_type'')"
  shows "get_prop (decode_metadata (encode_metadata nts stn m)) ''document_type'' =
           get_prop m ''document_type''"
proof -
  have "''document_type'' \<notin> set list_fields" using required_scalar_not_list by simp
  then show ?thesis using assms
    by (simp add: get_prop_decode_other
        get_prop_Some [where md = "encode_metadata nts stn m", OF encode_document_type]
        js_or_def nonempty_string_def)
qed

lemma roundtrip_category:
  assumes "is_string (get_prop m ''category'')"
  shows "get_prop (decode_metadata (encode_metadata nts stn m)) ''category'' =
           get_prop m ''category''"
proof -
  have "''category'' \<notin> set list_fields" using required_scalar_not_list by simp
  then show ?thesis
    by (simp add: get_prop_decode_other
        get_prop_Some [where md = "encode_metadata nts stn m", OF encode_category]
        is_string_or [OF assms])
qed

lemma roundtrip_chunk_index:
  assumes "is_number (get_prop m ''chunk_index'')"
  shows "get_prop (decode_metadata (encode_metadata nts stn m)) ''chunk_index'' =
           get_prop m ''chunk_index''"
proof -
  from assms obtain r where r: "get_prop m ''chunk_index'' = Num r"
    by (cases "get_prop m ''chunk_index''") auto
  have "''chunk_index'' \<notin> set list_fields" using required_scalar_not_list by simp
  then show ?thesis
    by (simp add: get_prop_decode_other
        get_prop_Some [where md = "encode_metadata nts stn m", OF encode_chunk_index] r)
qed

lemma roundtrip_keywords:
  assumes "clean_list (get_prop m ''keywords'')"
  shows "get_prop (decode_metadata (encode_metadata nts stn m)) ''keywords'' =
           get_prop m ''keywords''"
proof -
  have l: "''keywords'' \<in> set list_fields" by (simp add: list_fields_def)
  from split_list_join [OF assms, of nts] clean_list_isArray [OF assms]
  show ?thesis
    by (simp add: decode_list_field [OF l] encode_keywords get_prop_def)
qed

lemma roundtrip_optional_string:
  assumes "f \<in> set optional_string_fields"
    and "get_prop m f = Undefined \<or> nonempty_string (get_prop m f)"
  shows "get_prop (decode_metadata (encode_metadata nts stn m)) f = get_prop m f"
proof -
  from assms(1) have nl: "f \<notin> set list_fields" using optional_string_not_list by blast
  from assms(1) have e: "encode_metadata nts stn m f =
      (if truthy (get_prop m f) then Some (get_prop m f) else None)"
    using encode_string_field by blast
  from assms(2) show ?thesis
    by (auto simp: decode_other_field [OF nl] e get_prop_def nonempty_string_def)
qed

lemma roundtrip_optional_number:
  assumes "f \<in> set optional_number_fields"
    and "get_prop m f = Undefined \<or> is_number (get_prop m f)"
  shows "get_prop (decode_metadata (encode_metadata nts stn m)) f = get_prop m f"
proof -
  from assms(1) have nl: "f \<notin> set list_fields" using optional_number_not_list by blast
  from assms(1) have e: "encode_metadata nts stn m f =
      (if is_number (get_prop m f) then Some (get_prop m f) else None)"
    using encode_number_field by blast
  from assms(2) show ?thesis
    by (auto simp: decode_other_field [OF nl] e get_prop_def)
qed

lemma roundtrip_optional_list:
  assumes "f \<in> set optional_list_fields"
    and "get_prop m f = Undefined \<or> clean_list (get_prop m f)"
  shows "get_prop (decode_metadata (encode_metadata nts stn m)) f = get_prop m f"
proof -
  from assms(1) have l: "f \<in> set list_fields" using optional_list_is_list by blast
  from assms(1) have e: "encode_metadata nts stn m f =
       (if truthy (get_prop m f)
        then Some (Str (if isArray (get_prop m f) then js_join nts (get_prop m f)
                        else js_String nts (get_prop m f)))
        else None)"
    using encode_optional_list_field by blast
  from assms(2) show ?thesis
  proof
    assume "get_prop m f = Undefined"
    then show ?thesis
      by (simp add: decode_list_field [OF l] e get_prop_def)
  next
    assume c: "clean_list (get_prop m f)"
    from split_list_join [OF c, of nts] clean_list_isArray [OF c]
    show ?thesis
      by (simp add: decode_list_field [OF l] e get_prop_def)
  qed
qed

text \<open>
  C1, as the code has it. Take a metadata record in which \<open>keywords\<close> is a non-empty
  list of non-empty strings that contain no comma and neither start nor end with white
  space, each of \<open>topic_tags\<close>, \<open>code_languages\<close> and \<open>entities\<close> is such a list or is not
  there, \<open>source_file\<close> and \<open>category\<close> are strings, \<open>document_type\<close> is a non-empty string,
  \<open>chunk_index\<close> is a number, each optional string field is a non-empty string or is not
  there, and each optional numeric field is a number or is not there. Then
  reconstructing the lists of its stored form gives back the record on every specified
  field.
\<close>

theorem roundtrip_specified_fields:
  assumes "roundtrip_pre m"
  shows "\<forall>f \<in> set specified_fields.
           get_prop (decode_metadata (encode_metadata nts stn m)) f = get_prop m f"
proof
  fix f
  assume "f \<in> set specified_fields"
  then consider "f = ''source_file''" | "f = ''document_type''" | "f = ''category''"
    | "f = ''keywords''" | "f = ''chunk_index''" | "f \<in> set optional_string_fields"
    | "f \<in> set optional_number_fields" | "f \<in> set optional_list_fields"
    unfolding specified_fields_def by fastforce
  then show "get_prop (decode_metadata (encode_metadata nts stn m)) f = get_prop m f"
  proof cases
    case 1
    with assms show ?thesis by (simp add: roundtrip_pre_def roundtrip_source_file)
  next
    case 2
    with assms show ?thesis by (simp add: roundtrip_pre_def roundtrip_document_type)
  next
    case 3
    with assms show ?thesis by (simp add: roundtrip_pre_def roundtrip_category)
  next
    case 4
    with assms show ?thesis by (simp add: roundtrip_pre_def roundtrip_keywords)
  next
    case 5
    with assms show ?thesis by (simp add: roundtrip_pre_def roundtrip_chunk_index)
  next
    case 6
    with assms show ?thesis
      by (intro roundtrip_optional_string) (simp_all add: roundtrip_pre_def list_all_iff)
  next
    case 7
    with assms show ?thesis
      by (intro roundtrip_optional_number) (simp_all add: roundtrip_pre_def list_all_iff)
  next
    case 8
    with assms show ?thesis
      by (intro roundtrip_optional_list) (simp_all add: roundtrip_pre_def list_all_iff)
  qed
qed

theorem roundtrip_specified_fields_witness:
  "roundtrip_pre sample_metadata
   \<and> ''keywords'' \<in> set specified_fields
   \<and> get_prop (decode_metadata (encode_metadata sample_nts sample_stn sample_metadata))
       ''keywords'' = Arr [Str ''install'', Str ''quick start'']
   \<and> ''topic_tags'' \<in> set specified_fields
   \<and> get_prop (decode_metadata (encode_metadata sample_nts sample_stn sample_metadata))
       ''topic_tags'' = Arr [Str ''setup'']
   \<and> ''summary'' \<in> set specified_fields
   \<and> get_prop (decode_metadata (encode_metadata sample_nts sample_stn sample_metadata))
       ''summary'' = Undefined"
proof -
  have pre: "roundtrip_pre sample_metadata"
    by (simp add: roundtrip_pre_def sample_metadata_def get_prop_def nonempty_string_def
        optional_string_fields_def optional_number_fields_def optional_list_fields_def
        is_space_def)
  have fields: "''keywords'' \<in> set specified_fields" "''topic_tags'' \<in> set specified_fields"
    "''summary'' \<in> set specified_fields"
    by (simp_all add: specified_fields_def optional_string_fields_def
        optional_list_fields_def)
  have vals: "get_prop sample_metadata ''keywords'' = Arr [Str ''install'', Str ''quick start'']"
    "get_prop sample_metadata ''topic_tags'' = Arr [Str ''setup'']"
    "get_prop sample_metadata ''summary'' = Undefined"
    by (simp_all add: sample_metadata_def get_prop_def)
  from roundtrip_specified_fields [OF pre, of sample_nts sample_stn] fields vals pre
  show ?thesis by simp
qed

text \<open>
  C1 as the claim has it fails: in \<open>lossy_metadata\<close> no list element has a comma or is
  white space only, yet the keyword \<open>'' a''\<close> comes back without its leading space and
  the empty list of topic tags comes back as the empty string.
\<close>

theorem roundtrip_counterexample:
  "plain_lists lossy_metadata
   \<and> get_prop lossy_metadata ''keywords'' = Arr [Str '' a'']
   \<and> get_prop (decode_metadata (encode_metadata sample_nts sample_stn lossy_metadata))
       ''keywords'' = Arr [Str ''a'']
   \<and> get_prop lossy_metadata ''topic_tags'' = Arr []
   \<and> get_prop (decode_metadata (encode_metadata sample_nts sample_stn lossy_metadata))
       ''topic_tags'' = Str []"
proof -
  have k: "''keywords'' \<in> set list_fields" and t: "''topic_tags'' \<in> set list_fields"
    by (simp_all add: list_fields_def)
  have p: "plain_lists lossy_metadata"
    by (simp add: plain_lists_def lossy_metadata_def get_prop_def list_fields_def is_space_def)
  have g: "get_prop lossy_metadata ''keywords'' = Arr [Str '' a'']"
    "get_prop lossy_metadata ''topic_tags'' = Arr []"
    by (simp_all add: lossy_metadata_def get_prop_def)
  have tt: "''topic_tags'' \<in> set optional_list_fields" by (simp add: optional_list_fields_def)
  have 1: "get_prop (decode_metadata (encode_metadata sample_nts sample_stn lossy_metadata))
       ''keywords'' = Arr [Str ''a'']"
    by (simp add: get_prop_def [of "decode_metadata (encode_metadata sample_nts sample_stn lossy_metadata)"]
        decode_list_field [OF k] encode_keywords g split_list_def trim_def is_space_def)
  have 2: "get_prop (decode_metadata (encode_metadata sample_nts sample_stn lossy_metadata))
       ''topic_tags'' = Str []"
    using encode_optional_list_field [of sample_nts sample_stn lossy_metadata] tt
    by (simp add: get_prop_def [of "decode_metadata (encode_metadata sample_nts sample_stn lossy_metadata)"]
        decode_list_field [OF t] g)
  from p g 1 2 show ?thesis by simp
qed

section \<open>Batched ingestion\<close>

lemma batch_index_less: "j * batchSize < n \<longleftrightarrow> j < batch_count n"
  by (auto simp: batch_count_def batchSize_def)

lemma length_batch_requests [simp]:
  "length (batch_requests nts stn documents) = batch_count (length documents)"
  by (simp add: batch_requests_def)

lemma nth_batch_requests:
  "k < batch_count (length documents) \<Longrightarrow>
     batch_requests nts stn documents ! k =
       add_request nts stn (slice documents (k * batchSize) (k * batchSize + batchSize))"
  by (simp add: batch_requests_def)

text \<open>The loop sends the requests of the consecutive slices, one after the other.\<close>

lemma add_batches_issue_all:
  "add_batches nts stn add documents (j * batchSize) s calls =
     issue_all add s calls (drop j (batch_requests nts stn documents))"
proof (induction "batch_count (length documents) - j" arbitrary: j s calls)
  case 0
  then have "\<not> j < batch_count (length documents)" by simp
  then have "\<not> j * batchSize < length documents" by (simp add: batch_index_less)
  moreover from 0 have "drop j (batch_requests nts stn documents) = []" by simp
  ultimately show ?case by (simp add: add_batches.simps)
next
  case (Suc m)
  then have lt: "j < batch_count (length documents)" by simp
  then have i: "j * batchSize < length documents" by (simp add: batch_index_less)
  let ?r = "add_request nts stn (slice documents (j * batchSize) (j * batchSize + batchSize))"
  from lt have d: "drop j (batch_requests nts stn documents) =
      ?r # drop (Suc j) (batch_requests nts stn documents)"
    using Cons_nth_drop_Suc [of j "batch_requests nts stn documents"]
    by (simp add: nth_batch_requests)
  from Suc have m: "m = batch_count (length documents) - Suc j" by simp
  have ih: "\<And>s calls. add_batches nts stn add documents (j * batchSize + batchSize) s calls =
      issue_all add s calls (drop (Suc j) (batch_requests nts stn documents))"
    using Suc.hyps(1) [OF m] by (simp add: add.commute)
  show ?case
    by (subst add_batches.simps) (simp add: i d ih Let_def split: prod.splits option.splits)
qed

lemma addDocuments_issue_all:
  "addDocuments nts stn add s documents =
     (case issue_all add s [] (batch_requests nts stn documents) of
        (Inl message, s', calls) \<Rightarrow> (Inl (''Failed to add documents: '' @ message), s', calls)
      | (Inr u, s', calls) \<Rightarrow> (Inr u, s', calls))"
  using add_batches_issue_all [of nts stn add documents 0 s "[]"]
  by (simp add: addDocuments_def)

lemma issue_all_success:
  "issue_all add s calls rs = (Inr u, s', calls') \<Longrightarrow>
     calls' = calls @ rs \<and> s' = backend_after add rs s"
proof (induction rs arbitrary: s calls)
  case Nil
  then show ?case by (simp add: backend_after_def)
next
  case (Cons r rs)
  obtain e s1 where a: "add s r = (e, s1)" by (cases "add s r")
  with Cons.prems have e: "e = None" by (cases e) auto
  with Cons.prems a have "issue_all add s1 (calls @ [r]) rs = (Inr u, s', calls')" by simp
  from Cons.IH [OF this] a show ?case by (simp add: backend_after_def)
qed

lemma issue_all_accepted:
  "\<forall>t request. fst (add t request) = None \<Longrightarrow> fst (issue_all add s calls rs) = Inr ()"
proof (induction rs arbitrary: s calls)
  case Nil
  then show ?case by simp
next
  case (Cons r rs)
  obtain e s1 where a: "add s r = (e, s1)" by (cases "add s r")
  with Cons.prems have "e = None" by (metis fst_conv)
  with a Cons.IH [OF Cons.prems] show ?case by simp
qed

lemma issue_all_first_failure:
  "k < length rs \<Longrightarrow>
   \<forall>j < k. fst (add (backend_after add (take j rs) s) (rs ! j)) = None \<Longrightarrow>
   add (backend_after add (take k rs) s) (rs ! k) = (Some message, s') \<Longrightarrow>
     issue_all add s calls rs = (Inl message, s', calls @ take (Suc k) rs)"
proof (induction rs arbitrary: s calls k)
  case Nil
  then show ?case by simp
next
  case (Cons r rs)
  show ?case
  proof (cases k)
    case 0
    with Cons.prems show ?thesis by (simp add: backend_after_def)
  next
    case (Suc k')
    with Cons.prems have "fst (add (backend_after add (take 0 (r # rs)) s) ((r # rs) ! 0)) = None"
      by blast
    then have h: "fst (add s r) = None" by (simp add: backend_after_def)
    have a: "k' < length rs" using Cons.prems Suc by simp
    have b: "\<forall>j < k'. fst (add (backend_after add (take j rs) (snd (add s r))) (rs ! j)) = None"
    proof (intro allI impI)
      fix j assume "j < k'"
      then have "Suc j < k" using Suc by simp
      with Cons.prems
      have "fst (add (backend_after add (take (Suc j) (r # rs)) s) ((r # rs) ! Suc j)) = None"
        by blast
      then show "fst (add (backend_after add (take j rs) (snd (add s r))) (rs ! j)) = None"
        by (simp add: backend_after_def)
    qed
    have c: "add (backend_after add (take k' rs) (snd (add s r))) (rs ! k') = (Some message, s')"
      using Cons.prems(3) Suc by (simp add: backend_after_def)
    from Cons.IH [OF a b c] h show ?thesis
      by (cases "add s r") (simp add: Suc)
  qed
qed

lemma concat_slices:
  "concat (map (\<lambda>k. slice xs (k * b) (k * b + b)) [0 ..< m]) = take (m * b) xs"
proof (induction m)
  case 0
  then show ?case by simp
next
  case (Suc m)
  have "take (m * b) xs @ take b (drop (m * b) xs) = take (m * b + b) xs"
    by (simp add: take_add)
  with Suc show ?case by (simp add: slice_def add.commute)
qed

lemma concat_all_slices:
  "concat (map (\<lambda>k. slice xs (k * batchSize) (k * batchSize + batchSize))
     [0 ..< batch_count (length xs)]) = xs"
proof -
  have "length xs \<le> batch_count (length xs) * batchSize"
    by (simp add: batch_count_def batchSize_def)
  then show ?thesis by (simp add: concat_slices)
qed

lemma concat_requests:
  "concat (map (\<lambda>k. map f (slice documents (k * batchSize) (k * batchSize + batchSize)))
     [0 ..< batch_count (length documents)]) = map f documents"
proof -
  have "concat (map (\<lambda>k. map f (slice documents (k * batchSize) (k * batchSize + batchSize)))
     [0 ..< batch_count (length documents)]) =
     map f (concat (map (\<lambda>k. slice documents (k * batchSize) (k * batchSize + batchSize))
       [0 ..< batch_count (length documents)]))"
    by (simp add: map_concat comp_def)
  then show ?thesis by (simp add: concat_all_slices)
qed

lemma ceiling_batches: "int (batch_count n) = \<lceil>real n / 100\<rceil>"
proof -
  have "\<lceil>real n / 100\<rceil> = \<lceil>real_of_int (int n) / real_of_int 100\<rceil>" by simp
  also have "\<dots> = - (- int n div 100)" by (rule ceiling_divide_eq_div)
  also have "\<dots> = int ((n + 99) div 100)" by (simp add: zdiv_int)
  finally show ?thesis by (simp add: batch_count_def batchSize_def)
qed

lemma add_request_lengths:
  "length (add_ids (add_request nts stn batch)) = length batch"
  "length (add_embeddings (add_request nts stn batch)) = length batch"
  "length (add_documents (add_request nts stn batch)) = length batch"
  "length (add_metadatas (add_request nts stn batch)) = length batch"
  by (simp_all add: add_request_def)

lemma length_slice: "length (slice xs i (i + b)) \<le> b"
  by (simp add: slice_def)

text \<open>
  C3. When addDocuments succeeds on \<open>N\<close> chunk records, it has issued exactly
  \<open>ceil(N / 100)\<close> add calls; the \<open>k\<close>-th call carries the slice of the records from
  \<open>100 * k\<close> to \<open>100 * k + 100\<close>, so the calls are the consecutive batches in array
  order; each call has at most 100 ids and as many embeddings, contents and encoded
  metadata records as ids; the calls together carry every record exactly once, in order;
  and the backend has been sent exactly these calls. With a backend that accepts every
  request, addDocuments succeeds.
\<close>

theorem addDocuments_batches:
  "(addDocuments nts stn add s documents = (Inr (), s', calls) \<longrightarrow>
      int (length calls) = \<lceil>real (length documents) / 100\<rceil>
      \<and> (\<forall>k < length calls.
           calls ! k = add_request nts stn (slice documents (k * 100) (k * 100 + 100)))
      \<and> (\<forall>c \<in> set calls.
           length (add_ids c) \<le> 100
           \<and> length (add_embeddings c) = length (add_ids c)
           \<and> length (add_documents c) = length (add_ids c)
           \<and> length (add_metadatas c) = length (add_ids c))
      \<and> concat (map add_ids calls) = map doc_id documents
      \<and> concat (map add_embeddings calls) = map doc_embedding documents
      \<and> concat (map add_documents calls) = map doc_content documents
      \<and> concat (map add_metadatas calls) =
          map (\<lambda>doc. encode_metadata nts stn (doc_metadata doc)) documents
      \<and> s' = backend_after add calls s)
   \<and> ((\<forall>t request. fst (add t request) = None) \<longrightarrow>
        fst (addDocuments nts stn add s documents) = Inr ())"
proof (intro conjI impI)
  assume run: "addDocuments nts stn add s documents = (Inr (), s', calls)"
  obtain r where r: "issue_all add s [] (batch_requests nts stn documents) = r" by simp
  with run have "r = (Inr (), s', calls)"
    by (cases r) (auto simp: addDocuments_issue_all split: sum.splits)
  with r issue_all_success [of add s "[]" "batch_requests nts stn documents" "()" s' calls]
  have c: "calls = batch_requests nts stn documents" and s: "s' = backend_after add calls s"
    by simp_all
  show "int (length calls) = \<lceil>real (length documents) / 100\<rceil>"
    by (simp add: c ceiling_batches)
  show "\<forall>k < length calls.
      calls ! k = add_request nts stn (slice documents (k * 100) (k * 100 + 100))"
    using nth_batch_requests [of _ documents nts stn] by (simp add: c batchSize_def)
  show "\<forall>c \<in> set calls.
          length (add_ids c) \<le> 100
          \<and> length (add_embeddings c) = length (add_ids c)
          \<and> length (add_documents c) = length (add_ids c)
          \<and> length (add_metadatas c) = length (add_ids c)"
    using length_slice [of documents _ batchSize]
    by (auto simp: c batch_requests_def add_request_lengths batchSize_def)
  show "concat (map add_ids calls) = map doc_id documents"
    by (simp add: c batch_requests_def comp_def add_request_def concat_requests)
  show "concat (map add_embeddings calls) = map doc_embedding documents"
    by (simp add: c batch_requests_def comp_def add_request_def concat_requests)
  show "concat (map add_documents calls) = map doc_content documents"
    by (simp add: c batch_requests_def comp_def add_request_def concat_requests)
  show "concat (map add_metadatas calls) =
         map (\<lambda>doc. encode_metadata nts stn (doc_metadata doc)) documents"
    by (simp add: c batch_requests_def comp_def add_request_def concat_requests)
  show "s' = backend_after add calls s" by (rule s)
next
  assume "\<forall>t request. fst (add t request) = None"
  from issue_all_accepted [OF this, of s "[]" "batch_requests nts stn documents"]
  show "fst (addDocuments nts stn add s documents) = Inr ()"
    by (cases "issue_all add s [] (batch_requests nts stn documents)")
       (simp add: addDocuments_issue_all)
qed

text \<open>The theorem at 250 records and a backend that accepts every request: three calls.\<close>

theorem addDocuments_batches_witness:
  "(\<forall>t request. fst (accepting_add t request) = None)
   \<and> fst (addDocuments sample_nts sample_stn accepting_add 0 (replicate 250 sample_doc)) = Inr ()
   \<and> length (snd (snd (addDocuments sample_nts sample_stn accepting_add 0
        (replicate 250 sample_doc)))) = 3
   \<and> concat (map add_ids (snd (snd (addDocuments sample_nts sample_stn accepting_add 0
        (replicate 250 sample_doc))))) = replicate 250 ''c1''"
proof -
  let ?docs = "replicate 250 sample_doc"
  let ?run = "addDocuments sample_nts sample_stn accepting_add 0 ?docs"
  have acc: "\<forall>t request. fst (accepting_add t request) = None"
    by (simp add: accepting_add_def)
  note inst = addDocuments_batches [of sample_nts sample_stn accepting_add 0 "?docs"
      "fst (snd ?run)" "snd (snd ?run)"]
  from inst acc have ok: "fst ?run = Inr ()" by blast
  then have run: "?run = (Inr (), fst (snd ?run), snd (snd ?run))"
    by (metis prod.collapse)
  with inst have "int (length (snd (snd ?run))) = \<lceil>real (length ?docs) / 100\<rceil>"
    and "concat (map add_ids (snd (snd ?run))) = map doc_id ?docs"
    by blast+
  then have "length (snd (snd ?run)) = 3"
    and "concat (map add_ids (snd (snd ?run))) = replicate 250 ''c1''"
    by (simp_all add: sample_doc_def)
  with acc ok show ?thesis by simp
qed

text \<open>
  C6, as the code has it. When add call \<open>k\<close> (counted from 0) is the first that the
  backend rejects, addDocuments has issued the calls for batches \<open>0, ..., k\<close> and no
  other, the backend has taken batches \<open>0, ..., k - 1\<close>, and the operation fails with
  the message \<^verbatim>\<open>Failed to add documents: \<close> followed by the backend's message. The
  error holds no batch index.
\<close>

theorem addDocuments_first_failure:
  assumes "k < length (batch_requests nts stn documents)"
    and "\<forall>j < k. fst (add (backend_after add (take j (batch_requests nts stn documents)) s)
                       (batch_requests nts stn documents ! j)) = None"
    and "add (backend_after add (take k (batch_requests nts stn documents)) s)
           (batch_requests nts stn documents ! k) = (Some message, s')"
  shows "addDocuments nts stn add s documents =
     (Inl (''Failed to add documents: '' @ message), s',
      take (Suc k) (batch_requests nts stn documents))"
  by (simp add: addDocuments_issue_all issue_all_first_failure [OF assms])

lemma sample_requests:
  "batch_requests nts stn (replicate 150 d) =
     [add_request nts stn (replicate 100 d), add_request nts stn (replicate 50 d)]"
proof -
  have "[0 ..< batch_count 150] = [0, 1]"
    by (simp add: batch_count_def batchSize_def upt_rec)
  then show ?thesis
    by (simp add: batch_requests_def slice_def batchSize_def)
qed

text \<open>
  The theorem at 150 records and a backend that is full after 100: the second call is
  rejected, both calls were issued, and the backend holds the first batch.
\<close>

theorem addDocuments_first_failure_witness:
  "addDocuments sample_nts sample_stn (bounded_add 100) 0 (replicate 150 sample_doc) =
     (Inl ''Failed to add documents: boom'', 100,
      [add_request sample_nts sample_stn (replicate 100 sample_doc),
       add_request sample_nts sample_stn (replicate 50 sample_doc)])"
  using addDocuments_first_failure [of 1 sample_nts sample_stn "replicate 150 sample_doc"
      "bounded_add 100" 0 "''boom''" 100]
  by (simp add: sample_requests backend_after_def bounded_add_def add_request_def)

text \<open>
  C6 as the claim has it fails: a run whose first call is rejected and a run whose
  second call is rejected fail with the same error, so the error does not tell the index
  of the failed batch.
\<close>

theorem ingest_error_without_index:
  "fst (addDocuments sample_nts sample_stn (bounded_add 0) 0 (replicate 150 sample_doc)) =
     Inl ''Failed to add documents: boom''
   \<and> length (snd (snd (addDocuments sample_nts sample_stn (bounded_add 0) 0
        (replicate 150 sample_doc)))) = 1
   \<and> fst (addDocuments sample_nts sample_stn (bounded_add 100) 0 (replicate 150 sample_doc)) =
     Inl ''Failed to add documents: boom''
   \<and> length (snd (snd (addDocuments sample_nts sample_stn (bounded_add 100) 0
        (replicate 150 sample_doc)))) = 2"
  by (simp add: addDocuments_issue_all sample_requests bounded_add_def add_request_def)

section \<open>Rounding to the nearest double\<close>

lemma round_even_of_int [simp]: "round_even (of_int n) = n"
  by (simp add: round_even_def)

lemma round_even_numeral [simp]: "round_even (numeral n) = numeral n"
  using round_even_of_int [of "numeral n"] by simp

lemma round_even_neg_numeral [simp]: "round_even (- numeral n) = - numeral n"
  using round_even_of_int [of "- numeral n"] by simp

lemma round_even_lower: "of_int n \<le> q \<Longrightarrow> n \<le> round_even q"
proof -
  assume "of_int n \<le> q"
  then have "n \<le> \<lfloor>q\<rfloor>" by (simp add: le_floor_iff)
  then show ?thesis by (auto simp: round_even_def Let_def)
qed

lemma round_even_upper: "q \<le> of_int n \<Longrightarrow> round_even q \<le> n"
proof -
  assume "q \<le> of_int n"
  then have c: "\<lceil>q\<rceil> \<le> n" by (simp add: ceiling_le_iff)
  have "round_even q \<le> \<lceil>q\<rceil>"
    by (auto simp: round_even_def Let_def ceiling_altdef)
  with c show ?thesis by simp
qed

lemma exponent_eq:
  assumes "2 powr of_int k \<le> \<bar>x\<bar>" "\<bar>x\<bar> < 2 powr of_int (k + 1)" "- 1022 \<le> k"
  shows "exponent_of x = k - 52"
proof -
  from assms(1) have pos: "0 < \<bar>x\<bar>" by (smt (verit) powr_gt_zero)
  have "\<lfloor>log 2 \<bar>x\<bar>\<rfloor> = k"
    using floor_log_eq_powr_iff [of "\<bar>x\<bar>" 2 k] pos assms(1,2) by simp
  with assms(3) show ?thesis by (simp add: exponent_of_def)
qed

text \<open>The double nearest to a number between two powers of two.\<close>

lemma to_double_normal:
  assumes "2 powr of_int k \<le> \<bar>x\<bar>" "\<bar>x\<bar> < 2 powr of_int (k + 1)" "- 1022 \<le> k"
  shows "to_double x = of_int (round_even (x / 2 powr of_int (k - 52))) * 2 powr of_int (k - 52)"
proof -
  from assms(1) have "x \<noteq> 0" by (smt (verit) powr_gt_zero)
  then show ?thesis by (simp add: to_double_def exponent_eq [OF assms])
qed

lemma to_double_one: "to_double 1 = 1"
  using to_double_normal [of 0 1] by (simp add: powr_minus field_simps)

lemma to_double_minus_two: "to_double (- 2) = - 2"
  using to_double_normal [of 1 "- 2"] by (simp add: powr_minus field_simps)

lemma to_double_three: "to_double 3 = 3"
  using to_double_normal [of 1 "3"] by (simp add: powr_minus field_simps)

lemma to_double_above_one: "to_double (1 + 1 / 2 ^ 60) = 1"
  using to_double_normal [of 0 "1 + 1 / 2 ^ 60"]
  by (simp add: powr_minus field_simps round_even_def Let_def)

lemma to_double_minus_tiny: "to_double (- 1 / 2 ^ 60) = - 1 / 2 ^ 60"
  using to_double_normal [of "- 60" "- 1 / 2 ^ 60"]
  by (simp add: powr_minus field_simps round_even_def Let_def)

lemma to_double_fifth: "to_double (1 / 5) = 3602879701896397 / 2 ^ 54"
  using to_double_normal [of "- 3" "1 / 5"]
  by (simp add: powr_minus field_simps round_even_def Let_def)

lemma to_double_four_fifths: "to_double (4 / 5) = 7205759403792794 / 2 ^ 53"
  using to_double_normal [of "- 1" "4 / 5"]
  by (simp add: powr_minus field_simps round_even_def Let_def)

text \<open>In doubles, 1 - 0.2 is 0.8: the exact difference lies half way, and the tie goes to 0.8.\<close>

lemma one_minus_fifth: "to_double (1 - to_double (1 / 5)) = to_double (4 / 5)"
proof -
  have a: "1 - to_double (1 / 5) = 14411518807585587 / 2 ^ 54"
    by (simp add: to_double_fifth)
  have "to_double (14411518807585587 / 2 ^ 54) = 7205759403792794 / 2 ^ 53"
    using to_double_normal [of "- 1" "14411518807585587 / 2 ^ 54"]
    by (simp add: powr_minus field_simps round_even_def Let_def)
  then show ?thesis by (simp only: a to_double_four_fifths)
qed

lemma to_double_ge_one:
  assumes "1 \<le> x"
  shows "1 \<le> to_double x"
proof -
  let ?k = "\<lfloor>log 2 x\<rfloor>"
  from assms have k0: "0 \<le> ?k" by simp
  have "\<lfloor>log 2 x\<rfloor> = ?k" by simp
  with assms have lo: "2 powr of_int ?k \<le> x"
    using floor_log_eq_powr_iff [of x 2 ?k] by simp
  from assms have e: "exponent_of x = ?k - 52" using k0 by (simp add: exponent_of_def)
  have "of_int (2 ^ 52) \<le> x / 2 powr of_int (?k - 52)"
  proof -
    have "(2::real) powr of_int (?k - 52) = 2 powr of_int ?k / 2 ^ 52"
      by (simp add: powr_diff)
    with lo show ?thesis by (simp add: field_simps)
  qed
  from round_even_lower [OF this]
  have "2 ^ 52 \<le> round_even (x / 2 powr of_int (?k - 52))" .
  then have "(2 ^ 52 :: real) \<le> of_int (round_even (x / 2 powr of_int (?k - 52)))"
    by (metis of_int_le_iff of_int_numeral of_int_power)
  then have m: "2 ^ 52 * (2::real) powr of_int (?k - 52)
      \<le> of_int (round_even (x / 2 powr of_int (?k - 52))) * 2 powr of_int (?k - 52)"
    by (intro mult_right_mono) simp_all
  have p: "2 ^ 52 * (2::real) powr of_int (?k - 52) = 2 powr of_int ?k"
    by (simp add: powr_diff)
  from assms have t: "to_double x =
      of_int (round_even (x / 2 powr of_int (?k - 52))) * 2 powr of_int (?k - 52)"
    by (simp add: to_double_def e)
  from k0 have "(1::real) \<le> 2 powr of_int ?k" by (simp add: ge_one_powr_ge_zero)
  also from p have "\<dots> = 2 ^ 52 * (2::real) powr of_int (?k - 52)" by simp
  also note m
  finally show ?thesis by (simp only: t)
qed

lemma to_double_nonpos:
  assumes "x \<le> 0"
  shows "to_double x \<le> 0"
proof (cases "x = 0")
  case True
  then show ?thesis by (simp add: to_double_def)
next
  case False
  from assms have "x / 2 powr of_int (exponent_of x) \<le> of_int 0"
    by (simp add: divide_nonpos_pos)
  from round_even_upper [OF this]
  have "of_int (round_even (x / 2 powr of_int (exponent_of x))) \<le> (0::real)" by simp
  then show ?thesis
    by (simp add: to_double_def False mult_nonpos_nonneg)
qed

lemma to_double_negative:
  assumes "x \<le> - (2 powr (- 1022))"
  shows "to_double x < 0"
proof -
  define k where "k = \<lfloor>log 2 \<bar>x\<bar>\<rfloor>"
  have pos: "0 < (2::real) powr (- 1022)" by simp
  with assms have x0: "x < 0" by linarith
  from assms x0 have ab: "2 powr (- 1022) \<le> \<bar>x\<bar>" by simp
  with pos x0 have "log 2 (2 powr (- 1022)) \<le> log 2 \<bar>x\<bar>"
    by (subst log_le_cancel_iff) simp_all
  then have "of_int (- 1022) \<le> log 2 \<bar>x\<bar>" by simp
  then have k: "- 1022 \<le> k" unfolding k_def by (simp only: le_floor_iff)
  then have e: "exponent_of x = k - 52" by (simp add: exponent_of_def k_def [symmetric])
  from x0 have lo: "2 powr of_int k \<le> \<bar>x\<bar>"
    using floor_log_eq_powr_iff [of "\<bar>x\<bar>" 2 k] by (simp add: k_def)
  have p: "(2::real) powr of_int (k - 52) = 2 powr of_int k / 2 ^ 52"
    by (simp add: powr_diff)
  from lo x0 have "x / (2 powr of_int k / 2 ^ 52) \<le> - (2 ^ 52)"
    by (simp add: field_simps)
  then have "x / 2 powr of_int (k - 52) \<le> of_int (- (2 ^ 52))"
    by (simp only: p of_int_minus of_int_power of_int_numeral)
  from round_even_upper [OF this]
  have "round_even (x / 2 powr of_int (k - 52)) < 0" by simp
  then have "of_int (round_even (x / 2 powr of_int (k - 52))) * (2::real) powr of_int (k - 52) < 0"
    by (intro mult_neg_pos) simp_all
  with x0 show ?thesis by (simp add: to_double_def e)
qed

text \<open>The least double above 1 is \<open>1 + 2 powr (- 52)\<close>.\<close>

lemma double_above_one:
  assumes "to_double d = d" "1 < d"
  shows "1 + 2 powr (- 52) \<le> d"
proof -
  define k where "k = \<lfloor>log 2 d\<rfloor>"
  from assms(2) have k0: "0 \<le> k" by (simp add: k_def)
  from assms(2) have lo: "2 powr of_int k \<le> d"
    using floor_log_eq_powr_iff [of d 2 k] by (simp add: k_def)
  from assms(2) k0 have e: "exponent_of d = k - 52" by (simp add: exponent_of_def k_def)
  define n where "n = round_even (d / 2 powr of_int (k - 52))"
  from assms have dn: "d = of_int n * 2 powr of_int (k - 52)"
    by (simp add: to_double_def e n_def)
  show ?thesis
  proof (cases "52 \<le> k")
    case True
    then have "(2::real) powr 52 \<le> 2 powr of_int k"
      by (intro powr_mono) simp_all
    with lo have "(2::real) powr 52 \<le> d" by linarith
    moreover have "(2::real) powr (- 52) \<le> 1" by (simp add: powr_minus field_simps)
    moreover have "(2::real) \<le> 2 powr 52" by simp
    ultimately show ?thesis by linarith
  next
    case False
    define m where "m = nat (52 - k)"
    from False k0 have m: "m \<le> 52" "k - 52 = - int m" by (simp_all add: m_def)
    have pw: "(2::real) powr of_int (k - 52) = 1 / 2 ^ m"
      by (simp add: m(2) powr_minus powr_realpow field_simps)
    from dn pw have dm: "d * 2 ^ m = of_int n" by (simp add: field_simps)
    from assms(2) have "(2::real) ^ m < d * 2 ^ m" by simp
    with dm have "(of_int (2 ^ m) :: real) < of_int n" by simp
    then have "2 ^ m < n" by (simp only: of_int_less_iff)
    then have "2 ^ m + 1 \<le> n" by simp
    then have "(of_int (2 ^ m + 1) :: real) \<le> of_int n" by (simp only: of_int_le_iff)
    with dm have "2 ^ m + 1 \<le> d * 2 ^ m" by simp
    then have "1 + 1 / 2 ^ m \<le> d" by (simp add: field_simps)
    moreover from m(1) have "(2::real) powr (- 52) \<le> 1 / 2 ^ m"
    proof -
      from m(1) have "(2::real) ^ m \<le> 2 ^ 52" by (intro power_increasing) simp_all
      then show ?thesis by (simp add: powr_minus field_simps)
    qed
    ultimately show ?thesis by linarith
  qed
qed

lemma to_double_below_zero:
  assumes "is_double d" "1 < d"
  shows "to_double (1 - d) < 0"
proof -
  from assms have "1 + 2 powr (- 52) \<le> d" by (simp add: is_double_def double_above_one)
  then have "1 - d \<le> - (2 powr (- 52))" by simp
  moreover have "(2::real) powr (- 1022) \<le> 2 powr (- 52)" by (intro powr_mono) simp_all
  ultimately have "1 - d \<le> - (2 powr (- 1022))" by linarith
  then show ?thesis by (rule to_double_negative)
qed

section \<open>Listing the documents of a set\<close>

lemma first_occurrences_snoc:
  "first_occurrences (xs @ [x]) =
     (if x \<in> set xs then first_occurrences xs else first_occurrences xs @ [x])"
  by (simp add: first_occurrences_def)

lemma set_first_occurrences [simp]: "set (first_occurrences xs) = set xs"
  by (simp add: first_occurrences_def)

lemma distinct_first_occurrences [simp]: "distinct (first_occurrences xs)"
  by (simp add: first_occurrences_def)

lemma find_snoc:
  "find P (xs @ ys) = (case find P xs of None \<Rightarrow> find P ys | Some x \<Rightarrow> Some x)"
  by (induction xs) auto

lemma map_set_new: "k \<notin> set (map fst entries) \<Longrightarrow> map_set entries k v = entries @ [(k, v)]"
  by (induction entries) auto

text \<open>One more record keeps the map of listed documents as \<open>listed\<close> describes it.\<close>

lemma listed_step:
  assumes "listed nts stn clock chunks docsById"
  shows "listed nts stn clock (chunks @ [md]) (collect_record nts stn clock md docsById)"
proof -
  let ?d = "docId_of nts md"
  let ?ids = "filter (\<lambda>d. d \<noteq> []) (map (docId_of nts) chunks)"
  from assms have keys: "map fst docsById = first_occurrences ?ids"
    and items: "\<forall>k < length docsById. \<exists>md.
            find (\<lambda>md. docId_of nts md = fst (docsById ! k)) chunks = Some md
            \<and> snd (docsById ! k) = list_item nts stn (clock k) (fst (docsById ! k)) md"
    by (simp_all add: listed_def)
  have old: "\<exists>md'. find (\<lambda>md'. docId_of nts md' = fst (docsById ! k)) (chunks @ [md]) = Some md'
            \<and> snd (docsById ! k) = list_item nts stn (clock k) (fst (docsById ! k)) md'"
    if "k < length docsById" for k
  proof -
    from items that obtain md' where
      "find (\<lambda>md. docId_of nts md = fst (docsById ! k)) chunks = Some md'"
      "snd (docsById ! k) = list_item nts stn (clock k) (fst (docsById ! k)) md'"
      by blast
    then show ?thesis by (simp add: find_snoc)
  qed
  have keyset: "set (map fst docsById) = set ?ids" by (simp add: keys)
  show ?thesis
  proof (cases "?d = [] \<or> map_has docsById ?d")
    case True
    then have same: "collect_record nts stn clock md docsById = docsById"
      by (simp add: collect_record_def Let_def)
    from True keyset
    have "first_occurrences (filter (\<lambda>d. d \<noteq> []) (map (docId_of nts) (chunks @ [md])))
        = first_occurrences ?ids"
      by (auto simp: first_occurrences_snoc map_has_def)
    with keys old show ?thesis by (simp add: listed_def same)
  next
    case False
    then have ne: "?d \<noteq> []" and new: "?d \<notin> set (map fst docsById)"
      by (simp_all add: map_has_def)
    let ?item = "list_item nts stn (clock (length docsById)) ?d md"
    from False have upd: "collect_record nts stn clock md docsById = docsById @ [(?d, ?item)]"
      by (simp add: collect_record_def Let_def map_set_new [OF new])
    from new keyset have fresh: "?d \<notin> set ?ids" by simp
    with ne
    have k1: "first_occurrences (filter (\<lambda>d. d \<noteq> []) (map (docId_of nts) (chunks @ [md])))
        = first_occurrences ?ids @ [?d]"
      by (simp add: first_occurrences_snoc)
    from fresh ne have "\<forall>md' \<in> set chunks. docId_of nts md' \<noteq> ?d"
      by (auto simp: image_iff)
    then have "find (\<lambda>md'. docId_of nts md' = ?d) chunks = None"
      by (simp add: find_None_iff)
    then have last: "find (\<lambda>md'. docId_of nts md' = ?d) (chunks @ [md]) = Some md"
      by (simp add: find_snoc)
    have "\<exists>md'. find (\<lambda>md'. docId_of nts md' = fst ((docsById @ [(?d, ?item)]) ! k))
                (chunks @ [md]) = Some md'
            \<and> snd ((docsById @ [(?d, ?item)]) ! k) =
                list_item nts stn (clock k) (fst ((docsById @ [(?d, ?item)]) ! k)) md'"
      if "k < length (docsById @ [(?d, ?item)])" for k
    proof (cases "k < length docsById")
      case True
      with old [OF True] show ?thesis by (simp add: nth_append)
    next
      case False
      with that have "k = length docsById" by simp
      with last show ?thesis by (simp add: nth_append)
    qed
    with keys k1 show ?thesis by (simp add: listed_def upd)
  qed
qed

lemma listed_fold:
  "listed nts stn clock chunks docsById \<Longrightarrow>
     listed nts stn clock (chunks @ mds) (fold (collect_record nts stn clock) mds docsById)"
proof (induction mds arbitrary: chunks docsById)
  case Nil
  then show ?case by simp
next
  case (Cons md mds)
  from Cons.IH [OF listed_step [OF Cons.prems, of md]] show ?case by simp
qed

lemma listed_ids:
  assumes "listed nts stn clock chunks docsById"
  shows "map ld_id (map_values docsById) = map fst docsById"
proof (rule nth_equalityI)
  show "length (map ld_id (map_values docsById)) = length (map fst docsById)"
    by (simp add: map_values_def)
next
  fix k assume "k < length (map ld_id (map_values docsById))"
  then have k: "k < length docsById" by (simp add: map_values_def)
  with assms obtain md where
    "snd (docsById ! k) = list_item nts stn (clock k) (fst (docsById ! k)) md"
    by (auto simp: listed_def)
  with k show "map ld_id (map_values docsById) ! k = map fst docsById ! k"
    by (simp add: map_values_def list_item_def)
qed

text \<open>The inner loop goes through a page if and only if every entry is a record.\<close>

lemma collect_metadata_record:
  "collect_metadata nts stn clock (Some md) docsById =
     Inr (collect_record nts stn clock md docsById)"
  by (simp add: collect_metadata_def collect_record_def Let_def)

lemma collect_page_records:
  "collect_page nts stn clock (map Some mds) docsById =
     Inr (fold (collect_record nts stn clock) mds docsById)"
  by (induction mds arbitrary: docsById) (simp_all add: collect_metadata_record)

lemma collect_page_success:
  "collect_page nts stn clock entries docsById = Inr docsById' \<Longrightarrow>
     \<exists>mds. entries = map Some mds"
proof (induction entries arbitrary: docsById)
  case Nil
  then show ?case by simp
next
  case (Cons entry entries)
  from Cons.prems obtain md where e: "entry = Some md"
    by (cases entry) (simp_all add: collect_metadata_def)
  with Cons.prems have
    "collect_page nts stn clock entries (collect_record nts stn clock md docsById) = Inr docsById'"
    by (simp add: collect_metadata_record)
  from Cons.IH [OF this] obtain mds where "entries = map Some mds" by blast
  with e have "entry # entries = map Some (md # mds)" by simp
  then show ?case by (rule exI)
qed

lemma no_null_records: "None \<notin> set entries \<Longrightarrow> \<exists>mds. entries = map Some mds"
proof (induction entries)
  case Nil
  then show ?case by simp
next
  case (Cons entry entries)
  then obtain mds where m: "entries = map Some mds" by auto
  from Cons.prems obtain md where "entry = Some md" by (cases entry) auto
  with m have "entry # entries = map Some (md # mds)" by simp
  then show ?case by (rule exI)
qed

lemma page_index_less: "p * pageSize < n \<longleftrightarrow> p < page_count n"
  by (auto simp: page_count_def pageSize_def)

text \<open>The page loop, from page \<open>p\<close> on: what it returns when nothing throws.\<close>

lemma list_pages_result:
  assumes "list_pages nts stn clock get total' (p * pageSize) docsById calls = (Inr docs, calls')"
  shows "\<exists>chunks.
           concat (map (\<lambda>q. page_at get (q * pageSize)) [p ..< page_count total']) =
             map Some chunks
         \<and> docs = map_values (fold (collect_record nts stn clock) chunks docsById)
         \<and> calls' = calls @ map (\<lambda>q. get_request (q * pageSize)) [p ..< page_count total']"
  using assms
proof (induction "page_count total' - p" arbitrary: p docsById calls)
  case 0
  then have "\<not> p < page_count total'" by simp
  then have "\<not> p * pageSize < total'" by (simp add: page_index_less)
  with 0 show ?case by (simp add: list_pages.simps)
next
  case (Suc m)
  then have lt: "p < page_count total'" by simp
  then have i: "p * pageSize < total'" by (simp add: page_index_less)
  from Suc have m: "m = page_count total' - Suc p" by simp
  from lt have u: "[p ..< page_count total'] = p # [Suc p ..< page_count total']"
    by (simp add: upt_conv_Cons)
  show ?case
  proof (cases "get (get_request (p * pageSize))")
    case (Inl message)
    with Suc.prems i show ?thesis by (simp add: list_pages.simps)
  next
    case (Inr batch)
    show ?thesis
    proof (cases "collect_page nts stn clock (page_metadatas batch) docsById")
      case (Inl message)
      with Suc.prems i Inr show ?thesis by (simp add: list_pages.simps)
    next
      case collected: (Inr docsById')
      from collect_page_success [OF collected] obtain mds where
        mds: "page_metadatas batch = map Some mds" by blast
      with collected have d': "docsById' = fold (collect_record nts stn clock) mds docsById"
        by (simp add: collect_page_records)
      from Suc.prems i Inr collected have
        "list_pages nts stn clock get total' (Suc p * pageSize) docsById'
           (calls @ [get_request (p * pageSize)]) = (Inr docs, calls')"
        by (simp add: list_pages.simps add.commute)
      from Suc.hyps(1) [OF m this] obtain rest where
        r: "concat (map (\<lambda>q. page_at get (q * pageSize)) [Suc p ..< page_count total']) =
              map Some rest"
        and d: "docs = map_values (fold (collect_record nts stn clock) rest docsById')"
        and c: "calls' = (calls @ [get_request (p * pageSize)])
                  @ map (\<lambda>q. get_request (q * pageSize)) [Suc p ..< page_count total']"
        by blast
      have "page_at get (p * pageSize) = map Some mds"
        by (simp add: page_at_def Inr mds)
      then have "concat (map (\<lambda>q. page_at get (q * pageSize)) [p ..< page_count total']) =
              map Some (mds @ rest)"
        by (simp add: u r)
      moreover have "docs = map_values (fold (collect_record nts stn clock) (mds @ rest) docsById)"
        by (simp add: d d')
      moreover have "calls' =
          calls @ map (\<lambda>q. get_request (q * pageSize)) [p ..< page_count total']"
        by (simp add: c u)
      ultimately show ?thesis by blast
    qed
  qed
qed

lemma list_pages_succeeds:
  assumes "\<forall>args. \<exists>batch. get args = Inr batch \<and> None \<notin> set (page_metadatas batch)"
  shows "\<exists>docs. fst (list_pages nts stn clock get total' (p * pageSize) docsById calls) = Inr docs"
proof (induction "page_count total' - p" arbitrary: p docsById calls)
  case 0
  then have "\<not> p < page_count total'" by simp
  then have "\<not> p * pageSize < total'" by (simp add: page_index_less)
  then show ?case by (simp add: list_pages.simps)
next
  case (Suc m)
  then have lt: "p < page_count total'" by simp
  then have i: "p * pageSize < total'" by (simp add: page_index_less)
  from Suc have m: "m = page_count total' - Suc p" by simp
  from assms obtain batch where b: "get (get_request (p * pageSize)) = Inr batch"
    and n: "None \<notin> set (page_metadatas batch)" by blast
  from no_null_records [OF n] obtain mds where "page_metadatas batch = map Some mds" by blast
  then have c: "collect_page nts stn clock (page_metadatas batch) docsById =
      Inr (fold (collect_record nts stn clock) mds docsById)"
    by (simp add: collect_page_records)
  from Suc.hyps(1) [OF m, of "fold (collect_record nts stn clock) mds docsById"
      "calls @ [get_request (p * pageSize)]"]
  show ?case
    by (subst list_pages.simps) (simp add: i b c add.commute)
qed

lemma fetched_metadatas_pages:
  "concat (map (\<lambda>q. page_at get (q * pageSize)) [0 ..< page_count total']) =
     fetched_metadatas get total'"
  by (simp add: fetched_metadatas_def page_offsets_def comp_def)

lemma listDocuments_listed:
  assumes "listDocuments nts stn clock (Inr total') get = (Inr docs, calls)"
  shows "\<exists>chunks docsById.
           fetched_metadatas get total' = map Some chunks
           \<and> listed nts stn clock chunks docsById
           \<and> docs = map_values docsById
           \<and> calls = map get_request (page_offsets total')"
proof (cases "total' = 0")
  case True
  with assms have "docs = []" "calls = []" by (simp_all add: listDocuments_def)
  moreover from True have "fetched_metadatas get total' = map Some []"
    "page_offsets total' = []"
    by (simp_all add: fetched_metadatas_def page_offsets_def page_count_def pageSize_def)
  moreover have "listed nts stn clock [] []"
    by (simp add: listed_def first_occurrences_def)
  ultimately show ?thesis by (metis list.simps(8) map_values_def)
next
  case False
  obtain r c where r: "list_pages nts stn clock get total' 0 [] [] = (r, c)"
    by (cases "list_pages nts stn clock get total' 0 [] []")
  with assms False have "r = Inr docs" "c = calls"
    by (cases r; simp add: listDocuments_def)+
  with r have "list_pages nts stn clock get total' (0 * pageSize) [] [] = (Inr docs, calls)"
    by simp
  from list_pages_result [OF this] obtain chunks where
    f: "fetched_metadatas get total' = map Some chunks"
    and d: "docs = map_values (fold (collect_record nts stn clock) chunks [])"
    and c: "calls = map get_request (page_offsets total')"
    by (auto simp: fetched_metadatas_pages page_offsets_def comp_def)
  have "listed nts stn clock [] []"
    by (simp add: listed_def first_occurrences_def)
  from listed_fold [OF this, of chunks]
  have "listed nts stn clock chunks (fold (collect_record nts stn clock) chunks [])"
    by simp
  with f d c show ?thesis by blast
qed

lemma listDocuments_succeeds:
  assumes "\<forall>args. \<exists>batch. get args = Inr batch \<and> None \<notin> set (page_metadatas batch)"
  shows "\<exists>docs. fst (listDocuments nts stn clock (Inr total') get) = Inr docs"
proof (cases "total' = 0")
  case True
  then show ?thesis by (simp add: listDocuments_def)
next
  case False
  from list_pages_succeeds [OF assms, of nts stn clock total' 0 "[]" "[]"]
  obtain docs where "fst (list_pages nts stn clock get total' 0 [] []) = Inr docs" by auto
  with False show ?thesis
    by (cases "list_pages nts stn clock get total' 0 [] []") (simp add: listDocuments_def)
qed

text \<open>
  What listDocuments returns when it succeeds on a set of \<open>total'\<close> chunks: every fetched
  entry is a record; the ids of the result are the distinct non-empty document ids of
  the fetched records, each once, in the order of their first appearance across the
  pages; the \<open>k\<close>-th document is built from the first fetched record that has its id,
  with \<open>source_file\<close> defaulting to \<open>unknown\<close>, \<open>mime_type\<close> to \<open>text/plain\<close>,
  \<open>size_bytes\<close> to 0 and \<open>created_at\<close> to the time read when the document is built;
  and the pages were fetched at the offsets 0, 500, 1000, ... below the total. It
  succeeds when no fetch fails and no page holds a \<^verbatim>\<open>null\<close> entry.
\<close>

lemma listDocuments_first_seen:
  "(listDocuments nts stn clock (Inr total') get = (Inr docs, calls) \<longrightarrow>
      (\<exists>chunks.
         fetched_metadatas get total' = map Some chunks
         \<and> map ld_id docs =
             first_occurrences (filter (\<lambda>d. d \<noteq> []) (map (docId_of nts) chunks))
         \<and> distinct (map ld_id docs)
         \<and> (\<forall>k < length docs. \<exists>md.
              find (\<lambda>md. docId_of nts md = ld_id (docs ! k)) chunks = Some md
              \<and> docs ! k =
                  \<lparr>ld_id = docId_of nts md,
                   ld_source_file =
                     js_String nts (js_nullish (get_prop md ''source_file'') (Str ''unknown'')),
                   ld_mime_type =
                     js_String nts (js_nullish (get_prop md ''mime_type'') (Str ''text/plain'')),
                   ld_size_bytes =
                     js_Number nts stn (js_nullish (get_prop md ''size_bytes'') (Num 0)),
                   ld_created_at =
                     js_String nts (js_nullish (get_prop md ''created_at'') (Str (clock k)))\<rparr>)
         \<and> calls = map get_request (page_offsets total')))
   \<and> ((\<forall>args. \<exists>batch. get args = Inr batch \<and> None \<notin> set (page_metadatas batch)) \<longrightarrow>
        (\<exists>listing. fst (listDocuments nts stn clock (Inr total') get) = Inr listing))"
proof (intro conjI impI)
  assume run: "listDocuments nts stn clock (Inr total') get = (Inr docs, calls)"
  from listDocuments_listed [OF run] obtain chunks docsById where
    f: "fetched_metadatas get total' = map Some chunks"
    and l: "listed nts stn clock chunks docsById" and d: "docs = map_values docsById"
    and c: "calls = map get_request (page_offsets total')"
    by blast
  from l have keys: "map fst docsById =
      first_occurrences (filter (\<lambda>d. d \<noteq> []) (map (docId_of nts) chunks))"
    by (simp add: listed_def)
  have ids: "map ld_id docs = map fst docsById"
    using listed_ids [OF l] by (simp add: d)
  have 1: "map ld_id docs =
      first_occurrences (filter (\<lambda>d. d \<noteq> []) (map (docId_of nts) chunks))"
    by (simp add: ids keys)
  then have 2: "distinct (map ld_id docs)" by simp
  have 3: "\<forall>k < length docs. \<exists>md.
           find (\<lambda>md. docId_of nts md = ld_id (docs ! k)) chunks = Some md
           \<and> docs ! k =
               \<lparr>ld_id = docId_of nts md,
                ld_source_file =
                  js_String nts (js_nullish (get_prop md ''source_file'') (Str ''unknown'')),
                ld_mime_type =
                  js_String nts (js_nullish (get_prop md ''mime_type'') (Str ''text/plain'')),
                ld_size_bytes =
                  js_Number nts stn (js_nullish (get_prop md ''size_bytes'') (Num 0)),
                ld_created_at =
                  js_String nts (js_nullish (get_prop md ''created_at'') (Str (clock k)))\<rparr>"
  proof (intro allI impI)
    fix k assume kd: "k < length docs"
    then have k: "k < length docsById" by (simp add: d map_values_def)
    with l obtain md where
      fi: "find (\<lambda>md. docId_of nts md = fst (docsById ! k)) chunks = Some md"
      and i: "snd (docsById ! k) = list_item nts stn (clock k) (fst (docsById ! k)) md"
      by (auto simp: listed_def)
    from fi have e: "docId_of nts md = fst (docsById ! k)"
      by (auto simp: find_Some_iff)
    from k have n: "docs ! k = snd (docsById ! k)" by (simp add: d map_values_def)
    with i have "ld_id (docs ! k) = fst (docsById ! k)" by (simp add: list_item_def)
    with fi i e n show "\<exists>md.
           find (\<lambda>md. docId_of nts md = ld_id (docs ! k)) chunks = Some md
           \<and> docs ! k =
               \<lparr>ld_id = docId_of nts md,
                ld_source_file =
                  js_String nts (js_nullish (get_prop md ''source_file'') (Str ''unknown'')),
                ld_mime_type =
                  js_String nts (js_nullish (get_prop md ''mime_type'') (Str ''text/plain'')),
                ld_size_bytes =
                  js_Number nts stn (js_nullish (get_prop md ''size_bytes'') (Num 0)),
                ld_created_at =
                  js_String nts (js_nullish (get_prop md ''created_at'') (Str (clock k)))\<rparr>"
      by (simp add: list_item_def)
  qed
  from f 1 2 3 c show "\<exists>chunks.
         fetched_metadatas get total' = map Some chunks
         \<and> map ld_id docs =
             first_occurrences (filter (\<lambda>d. d \<noteq> []) (map (docId_of nts) chunks))
         \<and> distinct (map ld_id docs)
         \<and> (\<forall>k < length docs. \<exists>md.
              find (\<lambda>md. docId_of nts md = ld_id (docs ! k)) chunks = Some md
              \<and> docs ! k =
                  \<lparr>ld_id = docId_of nts md,
                   ld_source_file =
                     js_String nts (js_nullish (get_prop md ''source_file'') (Str ''unknown'')),
                   ld_mime_type =
                     js_String nts (js_nullish (get_prop md ''mime_type'') (Str ''text/plain'')),
                   ld_size_bytes =
                     js_Number nts stn (js_nullish (get_prop md ''size_bytes'') (Num 0)),
                   ld_created_at =
                     js_String nts (js_nullish (get_prop md ''created_at'') (Str (clock k)))\<rparr>)
         \<and> calls = map get_request (page_offsets total')"
    by (intro exI [of _ chunks] conjI)
next
  assume "\<forall>args. \<exists>batch. get args = Inr batch \<and> None \<notin> set (page_metadatas batch)"
  then show "\<exists>listing. fst (listDocuments nts stn clock (Inr total') get) = Inr listing"
    by (rule listDocuments_succeeds)
qed

text \<open>
  A set of four chunks in one page: two chunks of document \<open>d1\<close>, one chunk whose record
  has no document id and one chunk of document \<open>d2\<close>.
\<close>

lemma listDocuments_sample:
  "listDocuments sample_nts sample_stn sample_clock (Inr 4) sample_get =
     (Inr [\<lparr>ld_id = ''d1'', ld_source_file = ''unknown'', ld_mime_type = ''text/plain'',
            ld_size_bytes = Fin 0, ld_created_at = ''2024-01-01T00:00:00.000Z''\<rparr>,
          \<lparr>ld_id = ''d2'', ld_source_file = ''b.md'', ld_mime_type = ''text/plain'',
            ld_size_bytes = Fin 5, ld_created_at = ''2023-05-05''\<rparr>],
      [get_request 0])"
  by (simp add: listDocuments_def list_pages.simps sample_get_def get_request_def
      pageSize_def page_metadatas_def sample_page_def collect_metadata_def Let_def
      docId_of_def get_prop_def js_nullish_def map_has_def list_item_def sample_clock_def
      map_values_def)

text \<open>
  C2. The claim has a chunk with an absent document id skipped. On a set of two chunks,
  the first of them stored without metadata, so that its entry in the page is
  \<^verbatim>\<open>null\<close>, the read of line 122 throws and listDocuments fails with the message of
  the \<^verbatim>\<open>TypeError\<close>, where the claim has it list the document of the second chunk;
  with an empty record in the place of \<^verbatim>\<open>null\<close> the code lists that document.
\<close>

theorem listDocuments_null_metadata:
  "listDocuments sample_nts sample_stn sample_clock (Inr 2) null_get =
     (Inl (''Failed to list documents: '' @ null_read_message ''document_id''),
      [get_request 0])
   \<and> listDocuments sample_nts sample_stn sample_clock (Inr 2) empty_record_get =
     (Inr [\<lparr>ld_id = ''d1'', ld_source_file = ''unknown'', ld_mime_type = ''text/plain'',
            ld_size_bytes = Fin 0, ld_created_at = ''2024-01-01T00:00:00.000Z''\<rparr>],
      [get_request 0])"
  by (simp add: listDocuments_def list_pages.simps null_get_def empty_record_get_def
      null_page_def get_request_def pageSize_def page_metadatas_def collect_metadata_def
      Let_def docId_of_def get_prop_def js_nullish_def map_has_def list_item_def
      sample_clock_def map_values_def)

text \<open>
  C8. On a set whose chunk count is 0, listDocuments returns the empty sequence and
  issues no page fetch.
\<close>

theorem listDocuments_empty_set:
  "listDocuments nts stn clock (Inr 0) get = (Inr [], [])"
  by (simp add: listDocuments_def)

section \<open>Searching\<close>

subsection \<open>Filters\<close>

lemma fst_translate_entry [simp]: "fst (translate_entry entry) = fst entry"
  by (cases entry) (simp add: translate_entry_def)

lemma where_entry_proto:
  "fst entry = ''__proto__'' \<Longrightarrow> where_entry entry whereClause = whereClause"
  by (cases entry) (simp add: where_entry_def obj_assign_def)

lemma where_entry_new:
  "fst entry \<noteq> ''__proto__'' \<Longrightarrow> fst entry \<notin> set (map fst whereClause) \<Longrightarrow>
     where_entry entry whereClause = whereClause @ [translate_entry entry]"
  by (cases entry) (simp add: where_entry_def obj_assign_def translate_entry_def map_set_new)

lemma fold_where_entry:
  "distinct (map fst entries) \<Longrightarrow> set (map fst entries) \<inter> set (map fst whereClause) = {} \<Longrightarrow>
     fold where_entry entries whereClause =
       whereClause @ map translate_entry (filter (\<lambda>entry. fst entry \<noteq> ''__proto__'') entries)"
proof (induction entries arbitrary: whereClause)
  case Nil
  then show ?case by simp
next
  case (Cons entry entries)
  from Cons.prems have d: "distinct (map fst entries)" by simp
  show ?case
  proof (cases "fst entry = ''__proto__''")
    case True
    from Cons.prems have "set (map fst entries) \<inter> set (map fst whereClause) = {}" by auto
    from Cons.IH [OF d this] True show ?thesis by (simp add: where_entry_proto)
  next
    case False
    from Cons.prems have new: "fst entry \<notin> set (map fst whereClause)" by auto
    from Cons.prems
    have "set (map fst entries) \<inter> set (map fst (whereClause @ [translate_entry entry])) = {}"
      by auto
    from Cons.IH [OF d this] False show ?thesis by (simp add: where_entry_new [OF False new])
  qed
qed

lemma searchDocuments_request:
  "snd (searchDocuments query queryEmbedding limit filters) =
     query_request queryEmbedding limit filters"
  by (simp add: searchDocuments_def Let_def split: sum.splits)

text \<open>
  What the code passes as where clause. The filters are given by their entries, whose
  keys are distinct as the keys of an object are. The where clause has, for each entry
  whose key is not \<^verbatim>\<open>__proto__\<close>, in order, an \<^verbatim>\<open>$in\<close> predicate over the value when
  the value is a list and an \<^verbatim>\<open>$eq\<close> predicate on the value otherwise; when there is
  no such entry the query is sent without a where clause, and so it is when no filters
  are given.
\<close>

lemma filter_translation:
  "(distinct (map fst entries) \<longrightarrow>
      where_arg (snd (searchDocuments query queryEmbedding limit (Some entries))) =
        (if filter (\<lambda>entry. fst entry \<noteq> ''__proto__'') entries = [] then None
         else Some (map (\<lambda>(key, value).
                 (key, if isArray value then In_predicate value else Eq_predicate value))
               (filter (\<lambda>entry. fst entry \<noteq> ''__proto__'') entries))))
   \<and> where_arg (snd (searchDocuments query queryEmbedding limit None)) = None"
proof (intro conjI impI)
  assume d: "distinct (map fst entries)"
  let ?own = "filter (\<lambda>entry. fst entry \<noteq> ''__proto__'') entries"
  have t: "map translate_entry ?own =
      map (\<lambda>(key, value).
             (key, if isArray value then In_predicate value else Eq_predicate value)) ?own"
    by (simp add: translate_entry_def)
  from fold_where_entry [OF d, of "[]"]
  have "build_where (Some entries) = map translate_entry ?own"
    by (simp add: build_where_def)
  then show "where_arg (snd (searchDocuments query queryEmbedding limit (Some entries))) =
        (if ?own = [] then None
         else Some (map (\<lambda>(key, value).
                 (key, if isArray value then In_predicate value else Eq_predicate value))
               ?own))"
    by (simp add: searchDocuments_request query_request_def Let_def t)
next
  show "where_arg (snd (searchDocuments query queryEmbedding limit None)) = None"
    by (simp add: searchDocuments_request query_request_def build_where_def)
qed

lemma filter_translation_sample:
  "where_arg (snd (searchDocuments sample_query [1, 0] None (Some sample_filters))) =
     Some [(''document_type'', In_predicate (Arr [Str ''a'', Str ''b''])),
           (''category'', Eq_predicate (Str ''x''))]
   \<and> where_arg (snd (searchDocuments sample_query [1, 0] None (Some []))) = None"
  using filter_translation [of sample_filters sample_query "[1, 0]" None]
    filter_translation [of "[]" sample_query "[1, 0]" None]
  by (simp add: sample_filters_def)

text \<open>
  C4. The claim has every entry of the filter map translated, and the where clause left
  out only for an empty or absent map. On the filter map whose one own key is
  \<^verbatim>\<open>__proto__\<close> with the value \<open>x\<close>, where the claim has an equality predicate
  passed, the assignment of line 241 sets the prototype of the where clause, the clause
  has no own key and the query is sent without a where clause. With a second entry
  for \<open>category\<close> the where clause holds that entry alone.
\<close>

theorem filter_proto_key:
  "proto_filters \<noteq> []
   \<and> where_arg (snd (searchDocuments sample_query [1, 0] None (Some proto_filters))) = None
   \<and> where_arg (snd (searchDocuments sample_query [1, 0] None
        (Some (proto_filters @ [(''category'', Str ''y'')])))) =
       Some [(''category'', Eq_predicate (Str ''y''))]"
  by (simp add: searchDocuments_request query_request_def Let_def build_where_def
      where_entry_def obj_assign_def proto_filters_def)

subsection \<open>Hits\<close>

lemma searchDocuments_hits:
  assumes "query (query_request queryEmbedding limit filters) = Inr results"
    and "res_ids results = row # rest"
    and "index < length row"
  shows "searchDocuments query queryEmbedding limit filters =
           (Inr (search_hits results), query_request queryEmbedding limit filters)"
    and "length (search_hits results) = length row"
    and "search_hits results ! index = search_hit results (row ! index) index"
proof -
  show "searchDocuments query queryEmbedding limit filters =
           (Inr (search_hits results), query_request queryEmbedding limit filters)"
    using assms(1) by (simp add: searchDocuments_def Let_def)
  show "length (search_hits results) = length row"
    using assms(2) by (simp add: search_hits_def)
  show "search_hits results ! index = search_hit results (row ! index) index"
    using assms(2,3) by (simp add: search_hits_def nth_enumerate_eq)
qed

lemma distance_or_zero: "distance_or (Some d) 0 = d"
  by simp

text \<open>
  C5, as the code has it. When the backend answers the query, searchDocuments returns
  one hit for each id of the first row, by rank. A hit whose distance the backend
  reports as \<open>d\<close> has as similarity the difference \<open>1 - d\<close> of doubles, which is the
  exact difference rounded to the nearest double, and nothing clamps it: a distance of
  at most 0 gives a similarity of at least 1, a distance of at least 1 gives a
  similarity of at most 0, and a distance above 1 gives a similarity below 0. A hit
  without content has the empty string as content.
\<close>

theorem similarity_of_distance:
  assumes "query (query_request queryEmbedding limit filters) = Inr results"
    and "res_ids results = row # rest"
    and "index < length row"
  shows "\<exists>hits.
           searchDocuments query queryEmbedding limit filters =
             (Inr hits, query_request queryEmbedding limit filters)
         \<and> length hits = length row
         \<and> sr_id (hits ! index) = row ! index
         \<and> (\<forall>d. first_row_at (res_distances results) index = Some d \<longrightarrow>
                sr_similarity (hits ! index) = to_double (1 - d)
              \<and> (d \<le> 0 \<longrightarrow> 1 \<le> sr_similarity (hits ! index))
              \<and> (1 \<le> d \<longrightarrow> sr_similarity (hits ! index) \<le> 0)
              \<and> (is_double d \<and> 1 < d \<longrightarrow> sr_similarity (hits ! index) < 0))
         \<and> (first_row_at (res_documents results) index = None \<longrightarrow>
              sr_content (hits ! index) = [])"
proof (intro exI [of _ "search_hits results"] conjI allI impI)
  note h = searchDocuments_hits [of query queryEmbedding limit filters results row rest index,
      OF assms]
  show "searchDocuments query queryEmbedding limit filters =
          (Inr (search_hits results), query_request queryEmbedding limit filters)"
    by (rule h(1))
  show "length (search_hits results) = length row" by (rule h(2))
  show "sr_id (search_hits results ! index) = row ! index"
    by (simp add: h(3) search_hit_def Let_def)
  show "sr_content (search_hits results ! index) = []"
    if "first_row_at (res_documents results) index = None"
    using that by (simp add: h(3) search_hit_def Let_def)
  fix d
  assume d: "first_row_at (res_distances results) index = Some d"
  then show s: "sr_similarity (search_hits results ! index) = to_double (1 - d)"
    by (simp only: h(3) search_hit_def Let_def SearchResult.simps distance_or_zero)
  show "1 \<le> sr_similarity (search_hits results ! index)" if "d \<le> 0"
    using that to_double_ge_one [of "1 - d"] by (simp add: s)
  show "sr_similarity (search_hits results ! index) \<le> 0" if "1 \<le> d"
    using that to_double_nonpos [of "1 - d"] by (simp add: s)
  show "sr_similarity (search_hits results ! index) < 0" if "is_double d \<and> 1 < d"
    using that to_double_below_zero [of d] by (simp add: s)
qed

text \<open>
  The theorem at four hits with the distances 0.2, 0, none and 3: the first hit has
  similarity 0.8, the second 1 and no content, the fourth \<open>-2\<close>.
\<close>

theorem similarity_of_distance_witness:
  "sample_query (query_request [1, 0] None None) = Inr sample_results
   \<and> res_ids sample_results = [''c1'', ''c2'', ''c3'', ''c4''] # []
   \<and> is_double 3
   \<and> (\<exists>hits. fst (searchDocuments sample_query [1, 0] None None) = Inr hits
        \<and> length hits = 4
        \<and> sr_similarity (hits ! 0) = to_double (4 / 5)
        \<and> sr_similarity (hits ! 1) = 1
        \<and> sr_content (hits ! 1) = []
        \<and> sr_similarity (hits ! 3) = - 2
        \<and> sr_similarity (hits ! 3) < 0)"
proof -
  have q: "sample_query (query_request [1, 0] None None) = Inr sample_results"
    by (simp add: sample_query_def)
  have r: "res_ids sample_results = [''c1'', ''c2'', ''c3'', ''c4''] # []"
    by (simp add: sample_results_def)
  have d: "first_row_at (res_distances sample_results) 0 = Some (to_double (1 / 5))"
    "first_row_at (res_distances sample_results) 1 = Some 0"
    "first_row_at (res_distances sample_results) 3 = Some 3"
    "first_row_at (res_documents sample_results) 1 = None"
    by (simp_all add: sample_results_def first_row_at_def)
  have three: "is_double 3" by (simp add: is_double_def to_double_three)
  note inst = similarity_of_distance [of sample_query "[1, 0]" None None sample_results
      "[''c1'', ''c2'', ''c3'', ''c4'']" "[]", OF q r]
  from inst [of 0] obtain h0 where
    run: "searchDocuments sample_query [1, 0] None None =
            (Inr h0, query_request [1, 0] None None)"
    and len: "length h0 = length [''c1'', ''c2'', ''c3'', ''c4'']"
    and a0: "\<forall>d. first_row_at (res_distances sample_results) 0 = Some d \<longrightarrow>
               sr_similarity (h0 ! 0) = to_double (1 - d)"
    by auto
  from inst [of 1] obtain h1 where
    "searchDocuments sample_query [1, 0] None None = (Inr h1, query_request [1, 0] None None)"
    and "\<forall>d. first_row_at (res_distances sample_results) 1 = Some d \<longrightarrow>
               sr_similarity (h1 ! 1) = to_double (1 - d)"
    and "first_row_at (res_documents sample_results) 1 = None \<longrightarrow> sr_content (h1 ! 1) = []"
    by auto
  with run have a1: "\<forall>d. first_row_at (res_distances sample_results) 1 = Some d \<longrightarrow>
               sr_similarity (h0 ! 1) = to_double (1 - d)"
    and c1: "first_row_at (res_documents sample_results) 1 = None \<longrightarrow> sr_content (h0 ! 1) = []"
    by simp_all
  from inst [of 3] obtain h3 where
    r3: "searchDocuments sample_query [1, 0] None None =
           (Inr h3, query_request [1, 0] None None)"
    and b3: "\<forall>d. first_row_at (res_distances sample_results) 3 = Some d \<longrightarrow>
               sr_similarity (h3 ! 3) = to_double (1 - d)
             \<and> (is_double d \<and> 1 < d \<longrightarrow> sr_similarity (h3 ! 3) < 0)"
    by auto
  from run r3 have "h3 = h0" by simp
  with b3 have a3: "\<forall>d. first_row_at (res_distances sample_results) 3 = Some d \<longrightarrow>
               sr_similarity (h0 ! 3) = to_double (1 - d)
             \<and> (is_double d \<and> 1 < d \<longrightarrow> sr_similarity (h0 ! 3) < 0)"
    by (simp only:)
  from a0 d(1) have "sr_similarity (h0 ! 0) = to_double (1 - to_double (1 / 5))" by blast
  then have s0: "sr_similarity (h0 ! 0) = to_double (4 / 5)" by (simp only: one_minus_fifth)
  from a1 d(2) have "sr_similarity (h0 ! 1) = to_double (1 - 0)" by blast
  then have s1: "sr_similarity (h0 ! 1) = 1" by (simp add: to_double_one)
  from a3 d(3) have "sr_similarity (h0 ! 3) = to_double (1 - 3)" by blast
  then have s3: "sr_similarity (h0 ! 3) = - 2" by (simp add: to_double_minus_two)
  from a3 d(3) three have n3: "sr_similarity (h0 ! 3) < 0" by simp
  from c1 d(4) have e1: "sr_content (h0 ! 1) = []" by blast
  from run len s0 s1 s3 n3 e1
  have "fst (searchDocuments sample_query [1, 0] None None) = Inr h0
        \<and> length h0 = 4
        \<and> sr_similarity (h0 ! 0) = to_double (4 / 5)
        \<and> sr_similarity (h0 ! 1) = 1
        \<and> sr_content (h0 ! 1) = []
        \<and> sr_similarity (h0 ! 3) = - 2
        \<and> sr_similarity (h0 ! 3) < 0"
    by simp
  then have "\<exists>hits. fst (searchDocuments sample_query [1, 0] None None) = Inr hits
        \<and> length hits = 4
        \<and> sr_similarity (hits ! 0) = to_double (4 / 5)
        \<and> sr_similarity (hits ! 1) = 1
        \<and> sr_content (hits ! 1) = []
        \<and> sr_similarity (hits ! 3) = - 2
        \<and> sr_similarity (hits ! 3) < 0"
    by (rule exI)
  with q r three show ?thesis by blast
qed

text \<open>
  C5 as the claim has it fails: the distance \<open>- 1 / 2 ^ 60\<close> is a double outside
  \<open>[0, 1]\<close>, and the similarity of its hit is exactly 1, which is inside \<open>[0, 1]\<close> and is
  not the real \<open>1 + 1 / 2 ^ 60\<close>.
\<close>

theorem similarity_rounds_to_one:
  "is_double (- 1 / 2 ^ 60)
   \<and> (- 1 / 2 ^ 60 :: real) < 0
   \<and> first_row_at (res_distances tiny_results) 0 = Some (- 1 / 2 ^ 60)
   \<and> map sr_similarity (projr (fst (searchDocuments tiny_query [1, 0] None None))) = [1]
   \<and> (1 :: real) \<noteq> 1 - (- 1 / 2 ^ 60)"
proof -
  have a: "is_double (- 1 / 2 ^ 60)"
    unfolding is_double_def
  proof (rule conjI)
    show "to_double (- 1 / 2 ^ 60) = - 1 / 2 ^ 60" by (rule to_double_minus_tiny)
    show "\<bar>- 1 / 2 ^ 60\<bar> < (2::real) ^ 1024" by simp
  qed
  have b: "first_row_at (res_distances tiny_results) 0 = Some (- 1 / 2 ^ 60)"
    by (simp add: tiny_results_def first_row_at_def)
  have "(1::real) - (- 1 / 2 ^ 60) = 1 + 1 / 2 ^ 60" by simp
  then have c: "to_double (1 - (- 1 / 2 ^ 60)) = 1" by (simp only: to_double_above_one)
  have "map sr_similarity (projr (fst (searchDocuments tiny_query [1, 0] None None))) =
      [to_double (1 - (- 1 / 2 ^ 60))]"
    by (simp add: searchDocuments_def Let_def tiny_query_def tiny_results_def search_hits_def
        search_hit_def first_row_at_def del: minus_divide_left)
  with c have d: "map sr_similarity (projr (fst (searchDocuments tiny_query [1, 0] None None))) = [1]"
    by (simp only:)
  from a b d show ?thesis by simp
qed

text \<open>
  C10. A hit whose distance entry is absent, be it that the entry is missing or that
  the response has no distances at all, has similarity exactly 1, as a hit whose
  reported distance is 0 has.
\<close>

theorem similarity_without_distance:
  assumes "query (query_request queryEmbedding limit filters) = Inr results"
    and "res_ids results = row # rest"
    and "index < length row"
  shows "\<exists>hits.
           searchDocuments query queryEmbedding limit filters =
             (Inr hits, query_request queryEmbedding limit filters)
         \<and> (first_row_at (res_distances results) index = None \<longrightarrow>
              sr_similarity (hits ! index) = 1)
         \<and> (res_distances results = None \<longrightarrow> sr_similarity (hits ! index) = 1)
         \<and> (first_row_at (res_distances results) index = Some 0 \<longrightarrow>
              sr_similarity (hits ! index) = 1)"
proof (intro exI [of _ "search_hits results"] conjI)
  note h = searchDocuments_hits [of query queryEmbedding limit filters results row rest index,
      OF assms]
  show "searchDocuments query queryEmbedding limit filters =
          (Inr (search_hits results), query_request queryEmbedding limit filters)"
    by (rule h(1))
  show "first_row_at (res_distances results) index = None \<longrightarrow>
          sr_similarity (search_hits results ! index) = 1"
    by (simp add: h(3) search_hit_def Let_def to_double_one)
  show "res_distances results = None \<longrightarrow> sr_similarity (search_hits results ! index) = 1"
    by (simp add: h(3) search_hit_def Let_def first_row_at_def to_double_one)
  show "first_row_at (res_distances results) index = Some 0 \<longrightarrow>
          sr_similarity (search_hits results ! index) = 1"
    by (simp add: h(3) search_hit_def Let_def to_double_one)
qed

text \<open>The theorem at the third of the four hits, whose distance entry is missing.\<close>

theorem similarity_without_distance_witness:
  "sample_query (query_request [1, 0] None None) = Inr sample_results
   \<and> first_row_at (res_distances sample_results) 2 = None
   \<and> (\<exists>hits. fst (searchDocuments sample_query [1, 0] None None) = Inr hits
        \<and> sr_similarity (hits ! 2) = 1)"
proof -
  have q: "sample_query (query_request [1, 0] None None) = Inr sample_results"
    by (simp add: sample_query_def)
  have r: "res_ids sample_results = [''c1'', ''c2'', ''c3'', ''c4''] # []"
    by (simp add: sample_results_def)
  have d: "first_row_at (res_distances sample_results) 2 = None"
    by (simp add: sample_results_def first_row_at_def)
  from similarity_without_distance [of sample_query "[1, 0]" None None sample_results
      "[''c1'', ''c2'', ''c3'', ''c4'']" "[]" 2, OF q r] d
  have "\<exists>hits. fst (searchDocuments sample_query [1, 0] None None) = Inr hits
        \<and> sr_similarity (hits ! 2) = 1"
    by auto
  with q d show ?thesis by blast
qed

end
